theory Spec2Isabelle
  imports Main "HOL-Library.Sublist" "HOL-Library.Extended_Nat"
begin

section \<open>Error values and their classifiers (utils/retry.ts)\<close>

text \<open>
  A thrown value is read by the classifiers through two optional properties only:
  \<^verbatim>\<open>error?.message\<close> and \<^verbatim>\<open>error?.code\<close>. The message is a string when present; the
  code is a number or a string when present. Block heights, counters and the concurrency
  are JavaScript numbers; they are modelled as unbounded integers.
\<close>

datatype js_value = JUndefined | JNum int | JStr string

record js_error =
  message :: "string option"
  code :: js_value

text \<open>\<^verbatim>\<open>toLowerCase\<close> on the ASCII letters (a character of the model is a byte).\<close>

definition toLowerCase_char :: "char \<Rightarrow> char" where
  "toLowerCase_char c =
     (if 65 \<le> (of_char c :: nat) \<and> (of_char c :: nat) \<le> 90
      then (case c of Char b0 b1 b2 b3 b4 b5 b6 b7 \<Rightarrow> Char b0 b1 b2 b3 b4 True b6 b7)
      else c)"

definition toLowerCase :: "string \<Rightarrow> string" where
  "toLowerCase s = map toLowerCase_char s"

text \<open>\<^verbatim>\<open>s.includes(sub)\<close>: \<open>sub\<close> occurs in \<open>s\<close> as a contiguous run.\<close>

fun str_includes :: "string \<Rightarrow> string \<Rightarrow> bool" where
  "str_includes [] sub = (sub = [])"
| "str_includes (c # cs) sub = (prefix sub (c # cs) \<or> str_includes cs sub)"

text \<open>\<^verbatim>\<open>error?.message?.toLowerCase() || ''\<close> and \<^verbatim>\<open>error?.code || ''\<close>.\<close>

definition errorMessage_of :: "js_error \<Rightarrow> string" where
  "errorMessage_of error = (case message error of None \<Rightarrow> [] | Some m \<Rightarrow> toLowerCase m)"

definition errorCode_of :: "js_error \<Rightarrow> js_value" where
  "errorCode_of error =
     (case code error of
        JUndefined \<Rightarrow> JStr []
      | JNum n \<Rightarrow> if n = 0 then JStr [] else JNum n
      | JStr s \<Rightarrow> JStr s)"

definition isStatePrunedError :: "js_error \<Rightarrow> bool" where
  "isStatePrunedError error =
     (let errorMessage = errorMessage_of error; errorCode = errorCode_of error in
        str_includes errorMessage ''state already discarded'' \<or>
        str_includes errorMessage ''unknown block'' \<or>
        errorCode = JNum 4003)"

definition isNetworkError :: "js_error \<Rightarrow> bool" where
  "isNetworkError error =
     (let errorMessage = errorMessage_of error; errorCode = errorCode_of error in
        str_includes errorMessage ''timeout'' \<or>
        str_includes errorMessage ''timed out'' \<or>
        str_includes errorMessage ''econnrefused'' \<or>
        str_includes errorMessage ''econnreset'' \<or>
        str_includes errorMessage ''enotfound'' \<or>
        str_includes errorMessage ''enetunreach'' \<or>
        str_includes errorMessage ''disconnected'' \<or>
        str_includes errorMessage ''websocket is not connected'' \<or>
        str_includes errorMessage ''abnormal closure'' \<or>
        str_includes errorMessage ''connection closed'' \<or>
        str_includes errorMessage ''socket hang up'' \<or>
        str_includes errorMessage ''no response received'' \<or>
        errorCode = JStr ''ECONNREFUSED'' \<or>
        errorCode = JStr ''ECONNRESET'' \<or>
        errorCode = JStr ''ETIMEDOUT'' \<or>
        errorCode = JStr ''ENOTFOUND'')"

section \<open>Retry with backoff (utils/retry.ts)\<close>

text \<open>
  The options after the defaults have been merged in. \<open>maxAttempts\<close> may be
  \<^verbatim>\<open>Infinity\<close>. The waits and the log lines are not part of the model; the delay is
  carried through the loop as the source computes it.
\<close>

record retry_options =
  maxAttempts :: enat
  initialDelay :: int
  maxDelay :: int
  backoffMultiplier :: int
  shouldRetry :: "js_error \<Rightarrow> bool"

text \<open>
  The operation \<open>fn\<close> is called once per attempt; \<open>fn n\<close> is the outcome of the call
  made after \<open>n\<close> failed ones. The \<^verbatim>\<open>while (true)\<close> loop may run forever: then the
  value is \<open>None\<close>.
\<close>

partial_function (option) retry_loop ::
  "retry_options \<Rightarrow> (nat \<Rightarrow> js_error + 'a) \<Rightarrow> nat \<Rightarrow> int \<Rightarrow> (js_error + 'a) option" where
  "retry_loop opts fn attempt delay =
     (case fn attempt of
        Inr v \<Rightarrow> Some (Inr v)
      | Inl error \<Rightarrow>
          (if \<not> shouldRetry opts error then Some (Inl error)
           else if maxAttempts opts \<le> enat (attempt + 1) then Some (Inl error)
           else retry_loop opts fn (attempt + 1)
                  (min (delay * backoffMultiplier opts) (maxDelay opts))))"

definition retryWithBackoff ::
  "(nat \<Rightarrow> js_error + 'a) \<Rightarrow> retry_options \<Rightarrow> (js_error + 'a) option" where
  "retryWithBackoff fn opts = retry_loop opts fn 0 (initialDelay opts)"

definition network_retry_options :: retry_options where
  "network_retry_options =
     \<lparr>maxAttempts = \<infinity>, initialDelay = 60000, maxDelay = 60000, backoffMultiplier = 1,
      shouldRetry = isNetworkError\<rparr>"

definition retryOnNetworkError :: "(nat \<Rightarrow> js_error + 'a) \<Rightarrow> (js_error + 'a) option" where
  "retryOnNetworkError fn = retryWithBackoff fn network_retry_options"

section \<open>Documents (db/types.ts)\<close>

text \<open>
  Decoded values of arbitrary shape (\<^verbatim>\<open>any\<close>) are carried as their text. The
  \<^verbatim>\<open>indexedAt\<close> and \<^verbatim>\<open>lastUpdated\<close> fields hold the wall-clock time of the write and
  are left out. Fields of the three document types are prefixed by their collection,
  since the source uses the same field names in several of them.
\<close>

type_synonym any_json = string

record block_doc =
  blk_number :: int
  blk_hash :: string
  blk_parentHash :: string
  blk_stateRoot :: string
  blk_extrinsicsRoot :: string
  blk_timestamp :: int
  blk_extrinsicCount :: nat
  blk_eventCount :: nat
  blk_author :: "string option"
  blk_chainId :: int

record extrinsic_doc =
  ext_blockNumber :: int
  ext_blockHash :: string
  ext_extrinsicIndex :: nat
  ext_hash :: string
  ext_pallet :: string
  ext_method :: string
  ext_args :: "(string \<times> any_json) list"
  ext_signer :: "string option"
  ext_success :: bool
  ext_error :: "string option"
  ext_timestamp :: int
  ext_nonce :: "nat option"
  ext_tip :: "string option"
  ext_isSigned :: bool
  ext_chainId :: int

record event_doc =
  evt_blockNumber :: int
  evt_blockHash :: string
  evt_eventIndex :: nat
  evt_extrinsicIndex :: "nat option"
  evt_pallet :: string
  evt_method :: string
  evt_data :: any_json
  evt_phase :: string
  evt_topics :: "string list"
  evt_timestamp :: int
  evt_chainId :: int

record scan_progress =
  chainId :: int
  chainName :: string
  lastIndexedBlock :: int
  blocksIndexed :: int
  extrinsicsIndexed :: int
  eventsIndexed :: int
  isComplete :: bool
  targetEndBlock :: "int option"

section \<open>The database wrapper (IndexerDatabase)\<close>

text \<open>
  The store is an external collaborator. Its contents at the start of an invocation are
  the two collections the code reads; what a write answers is given by two functions
  (\<open>None\<close>: the write is acknowledged, \<open>Some e\<close>: the awaited promise rejects with
  \<open>e\<close>). \<open>insert_result\<close> answers the \<^verbatim>\<open>Promise.all\<close> of the three inserts of one
  block.
\<close>

record database =
  blocks :: "block_doc list"
  scanProgress :: "scan_progress list"
  insert_result :: "block_doc \<Rightarrow> extrinsic_doc list \<Rightarrow> event_doc list \<Rightarrow> js_error option"
  updateScanProgress_result :: "scan_progress \<Rightarrow> js_error option"

definition getScanProgress :: "database \<Rightarrow> int \<Rightarrow> scan_progress option" where
  "getScanProgress d cid = find (\<lambda>p. chainId p = cid) (scanProgress d)"

text \<open>
  The \<^verbatim>\<open>for\<close> loop of \<^verbatim>\<open>findMissingBlocks\<close> over the sorted block numbers, with its
  two variables \<open>expectedBlock\<close> and \<open>missingRanges\<close>. A range \<^verbatim>\<open>{start, end}\<close> is a pair.
\<close>

fun scan_indexedBlocks :: "int list \<Rightarrow> int \<Rightarrow> (int \<times> int) list \<Rightarrow> (int \<times> int) list" where
  "scan_indexedBlocks [] expectedBlock missingRanges = missingRanges"
| "scan_indexedBlocks (blockNum # rest) expectedBlock missingRanges =
     scan_indexedBlocks rest (blockNum + 1)
       (if blockNum > expectedBlock then missingRanges @ [(expectedBlock, blockNum - 1)]
        else missingRanges)"

definition findMissingBlocks :: "database \<Rightarrow> int \<Rightarrow> (int \<times> int) list" where
  "findMissingBlocks d cid =
     (case getScanProgress d cid of
        None \<Rightarrow> []
      | Some progress \<Rightarrow>
          if lastIndexedBlock progress = 0 then []
          else
            let indexedBlocks = sort (map blk_number (filter (\<lambda>b. blk_chainId b = cid) (blocks d)))
            in if indexedBlocks = [] then [(0, lastIndexedBlock progress)]
               else
                 let missingRanges = scan_indexedBlocks indexedBlocks 0 [];
                     lastBlock = last indexedBlocks
                 in if lastBlock < lastIndexedBlock progress
                    then missingRanges @ [(lastBlock + 1, lastIndexedBlock progress)]
                    else missingRanges)"

section \<open>What the chain client returns\<close>

text \<open>
  The chain client is external. Of its objects the model keeps what \<^verbatim>\<open>index\<close> reads.
  A call the source guards with \<^verbatim>\<open>try\<close> carries its failure: the names of the declared
  arguments (\<open>None\<close>: reading \<^verbatim>\<open>extrinsic.meta.args\<close> throws), each argument value by
  what its \<^verbatim>\<open>toHuman()\<close> gives (\<open>None\<close>: it throws), and the text of the first datum of
  an event (\<open>None\<close>: \<^verbatim>\<open>event.data[0].toString()\<close> throws). \<^verbatim>\<open>data.toHuman()\<close> of an
  event is not guarded by the source; it stands for the calls of the normalisation that
  may throw.
\<close>

datatype phase = ApplyExtrinsic nat | Finalization | Initialization

fun phase_type :: "phase \<Rightarrow> string" where
  "phase_type (ApplyExtrinsic n) = ''ApplyExtrinsic''"
| "phase_type Finalization = ''Finalization''"
| "phase_type Initialization = ''Initialization''"

record event_record =
  er_phase :: phase
  er_section :: string
  er_method :: string
  er_data_toHuman :: "js_error + any_json"
  er_data0_toString :: "string option"
  er_topics :: "string list option"

record extrinsic =
  ex_section :: string
  ex_method :: string
  ex_method_args :: "any_json option list"
  ex_meta_args :: "string list option"
  ex_signer :: "string option"
  ex_isSigned :: bool
  ex_nonce :: "nat option"
  ex_tip :: "string option"
  ex_hash :: string

record signed_block =
  header_parentHash :: string
  header_stateRoot :: string
  header_extrinsicsRoot :: string
  block_extrinsics :: "extrinsic list"

record fetched_block_data =
  blockNum :: int
  blockHash :: string
  signedBlock :: signed_block
  timestampMs :: int
  allEvents :: "event_record list"

text \<open>
  \<open>rpc_block h n\<close> is what the closure passed to \<^verbatim>\<open>retryOnNetworkError\<close> in
  \<^verbatim>\<open>fetchBlockData\<close> gives at height \<open>h\<close> on the call made after \<open>n\<close> failed ones: the
  value thrown by one of its five remote calls, or the block hash, the signed block, the
  timestamp and the events.
\<close>

record api =
  rpc_block :: "int \<Rightarrow> nat \<Rightarrow> js_error + (string \<times> signed_block \<times> int \<times> event_record list)"
  header_number :: int
  system_chain :: string
  ExtrinsicSuccess_is :: "event_record \<Rightarrow> bool"
  ExtrinsicFailed_is :: "event_record \<Rightarrow> bool"

section \<open>The indexer (db/indexer.ts)\<close>

record indexer =
  idx_api :: api
  idx_db :: database
  idx_chainId :: int

record progress_info =
  cb_lastIndexedBlock :: int
  cb_blocksIndexed :: int
  cb_extrinsicsIndexed :: int
  cb_eventsIndexed :: int
  cb_activeFetches :: nat

text \<open>
  The options of \<^verbatim>\<open>index\<close>; \<open>None\<close> is \<^verbatim>\<open>undefined\<close>. A callback answers \<open>Some e\<close>
  when it throws \<open>e\<close>. \<^verbatim>\<open>batchSize\<close> is never read.
\<close>

record indexer_options =
  startBlock :: "int option"
  endBlock :: "int option"
  concurrency :: "int option"
  onProgress :: "(progress_info \<Rightarrow> js_error option) option"

subsection \<open>fetchBlockData\<close>

definition fetch_attempt :: "api \<Rightarrow> int \<Rightarrow> nat \<Rightarrow> js_error + fetched_block_data" where
  "fetch_attempt a n k =
     (case rpc_block a n k of
        Inl error \<Rightarrow> Inl error
      | Inr (h, sb, ts, evs) \<Rightarrow>
          Inr \<lparr>blockNum = n, blockHash = h, signedBlock = sb, timestampMs = ts, allEvents = evs\<rparr>)"

text \<open>The \<^verbatim>\<open>catch\<close> of \<^verbatim>\<open>fetchBlockData\<close>; \<open>Inr None\<close> is the \<^verbatim>\<open>null\<close> it returns.\<close>

definition catch_pruned ::
  "(js_error + fetched_block_data) option \<Rightarrow> (js_error + fetched_block_data option) option" where
  "catch_pruned r =
     (case r of
        None \<Rightarrow> None
      | Some (Inr fetched) \<Rightarrow> Some (Inr (Some fetched))
      | Some (Inl error) \<Rightarrow>
          if isStatePrunedError error then Some (Inr None) else Some (Inl error))"

definition fetchBlockData :: "api \<Rightarrow> int \<Rightarrow> (js_error + fetched_block_data option) option" where
  "fetchBlockData a n = catch_pruned (retryOnNetworkError (fetch_attempt a n))"

subsection \<open>Normalising one block\<close>

text \<open>Assignment \<^verbatim>\<open>args[argName] = v\<close> on an object whose keys keep their first position.\<close>

fun assign :: "string \<Rightarrow> any_json \<Rightarrow> (string \<times> any_json) list \<Rightarrow> (string \<times> any_json) list" where
  "assign k v [] = [(k, v)]"
| "assign k v ((k', v') # ps) = (if k' = k then (k, v) # ps else (k', v') # assign k v ps)"

text \<open>
  The \<^verbatim>\<open>forEach\<close> over \<^verbatim>\<open>meta.args\<close>, inside the \<^verbatim>\<open>try\<close>: \<open>args\<close> is filled entry by
  entry, and the first throw (a value whose \<^verbatim>\<open>toHuman()\<close> throws, or no value at that
  index) ends the loop with what has been stored so far.
\<close>

fun decode_each ::
  "string list \<Rightarrow> any_json option list \<Rightarrow> nat \<Rightarrow> (string \<times> any_json) list \<Rightarrow> (string \<times> any_json) list" where
  "decode_each [] vals argIndex args = args"
| "decode_each (argName # rest) vals argIndex args =
     (if argIndex < length vals
      then (case vals ! argIndex of
              Some v \<Rightarrow> decode_each rest vals (argIndex + 1) (assign argName v args)
            | None \<Rightarrow> args)
      else args)"

definition decode_args :: "extrinsic \<Rightarrow> (string \<times> any_json) list" where
  "decode_args x =
     (case ex_meta_args x of
        None \<Rightarrow> []
      | Some names \<Rightarrow> decode_each names (ex_method_args x) 0 [])"

text \<open>
  The \<^verbatim>\<open>for\<close> loop over the events that sets \<open>success\<close> and \<open>error\<close> of the extrinsic
  at position \<open>index\<close>.
\<close>

fun check_success ::
  "api \<Rightarrow> nat \<Rightarrow> event_record list \<Rightarrow> bool \<times> string option \<Rightarrow> bool \<times> string option" where
  "check_success a index [] (success, error) = (success, error)"
| "check_success a index (r # rest) (success, error) =
     (if er_phase r = ApplyExtrinsic index
      then (if ExtrinsicSuccess_is a r then check_success a index rest (True, error)
            else if ExtrinsicFailed_is a r
            then check_success a index rest
                   (False, Some (case er_data0_toString r of Some s \<Rightarrow> s | None \<Rightarrow> ''Unknown error''))
            else check_success a index rest (success, error))
      else check_success a index rest (success, error))"

definition extrinsic_document :: "indexer \<Rightarrow> fetched_block_data \<Rightarrow> nat \<Rightarrow> extrinsic \<Rightarrow> extrinsic_doc" where
  "extrinsic_document ix fetched index x =
     (let args = decode_args x;
          (success, error) = check_success (idx_api ix) index (allEvents fetched) (False, None)
      in \<lparr>ext_blockNumber = blockNum fetched,
          ext_blockHash = blockHash fetched,
          ext_extrinsicIndex = index,
          ext_hash = ex_hash x,
          ext_pallet = ex_section x,
          ext_method = ex_method x,
          ext_args = args,
          ext_signer = ex_signer x,
          ext_success = success,
          ext_error = error,
          ext_timestamp = timestampMs fetched,
          ext_nonce = (if ex_isSigned x then ex_nonce x else None),
          ext_tip = (if ex_isSigned x then ex_tip x else None),
          ext_isSigned = ex_isSigned x,
          ext_chainId = idx_chainId ix\<rparr>)"

definition extrinsic_documents :: "indexer \<Rightarrow> fetched_block_data \<Rightarrow> extrinsic_doc list" where
  "extrinsic_documents ix fetched =
     map (\<lambda>(index, x). extrinsic_document ix fetched index x)
       (List.enumerate 0 (block_extrinsics (signedBlock fetched)))"

text \<open>The \<^verbatim>\<open>forEach\<close> over the events; a throwing \<^verbatim>\<open>data.toHuman()\<close> leaves it.\<close>

fun event_documents ::
  "indexer \<Rightarrow> fetched_block_data \<Rightarrow> nat \<Rightarrow> event_record list \<Rightarrow> js_error + event_doc list" where
  "event_documents ix fetched eventIndex [] = Inr []"
| "event_documents ix fetched eventIndex (r # rest) =
     (case er_data_toHuman r of
        Inl error \<Rightarrow> Inl error
      | Inr human \<Rightarrow>
          (case event_documents ix fetched (eventIndex + 1) rest of
             Inl error \<Rightarrow> Inl error
           | Inr docs \<Rightarrow>
               Inr (\<lparr>evt_blockNumber = blockNum fetched,
                     evt_blockHash = blockHash fetched,
                     evt_eventIndex = eventIndex,
                     evt_extrinsicIndex =
                       (case er_phase r of ApplyExtrinsic n \<Rightarrow> Some n | _ \<Rightarrow> None),
                     evt_pallet = er_section r,
                     evt_method = er_method r,
                     evt_data = human,
                     evt_phase = phase_type (er_phase r),
                     evt_topics = (case er_topics r of Some ts \<Rightarrow> ts | None \<Rightarrow> []),
                     evt_timestamp = timestampMs fetched,
                     evt_chainId = idx_chainId ix\<rparr> # docs)))"

definition block_document :: "indexer \<Rightarrow> fetched_block_data \<Rightarrow> block_doc" where
  "block_document ix fetched =
     \<lparr>blk_number = blockNum fetched,
      blk_hash = blockHash fetched,
      blk_parentHash = header_parentHash (signedBlock fetched),
      blk_stateRoot = header_stateRoot (signedBlock fetched),
      blk_extrinsicsRoot = header_extrinsicsRoot (signedBlock fetched),
      blk_timestamp = timestampMs fetched,
      blk_extrinsicCount = length (block_extrinsics (signedBlock fetched)),
      blk_eventCount = length (allEvents fetched),
      blk_author = None,
      blk_chainId = idx_chainId ix\<rparr>"

definition normalize ::
  "indexer \<Rightarrow> fetched_block_data \<Rightarrow> js_error + (block_doc \<times> extrinsic_doc list \<times> event_doc list)" where
  "normalize ix fetched =
     (let blockDoc = block_document ix fetched;
          extrinsicDocs = extrinsic_documents ix fetched
      in case event_documents ix fetched 0 (allEvents fetched) of
           Inl error \<Rightarrow> Inl error
         | Inr eventDocs \<Rightarrow> Inr (blockDoc, extrinsicDocs, eventDocs))"

subsection \<open>Persisting one block\<close>

text \<open>
  The calls made to the store and to the callback are recorded in the order in which
  the source makes them, each with the block number that is being processed.
\<close>

datatype effect =
    BlocksInsertOne block_doc
  | ExtrinsicsInsertMany "extrinsic_doc list"
  | EventsInsertMany "event_doc list"
  | UpdateScanProgress scan_progress
  | OnProgress progress_info

text \<open>The locals of \<^verbatim>\<open>index\<close> that are fixed before the loop starts.\<close>

record run =
  run_endBlock :: int
  run_concurrency :: int
  run_chainName :: string
  run_onProgress :: "(progress_info \<Rightarrow> js_error option) option"

text \<open>
  The variables of the loop. The queue holds the pending fetches in the order of their
  issue, each by its height: the outcome of a fetch is read when it is awaited at the head
  of the queue.
\<close>

record index_state =
  currentBlock :: int
  fetchQueue :: "int list"
  st_blocksIndexed :: int
  st_extrinsicsIndexed :: int
  st_eventsIndexed :: int
  trace :: "(int \<times> effect) list"

definition emit :: "int \<Rightarrow> effect list \<Rightarrow> index_state \<Rightarrow> index_state" where
  "emit n es st = st\<lparr>trace := trace st @ map (Pair n) es\<rparr>"

definition progress_document :: "indexer \<Rightarrow> run \<Rightarrow> index_state \<Rightarrow> int \<Rightarrow> bool \<Rightarrow> scan_progress" where
  "progress_document ix rn st n flag =
     \<lparr>chainId = idx_chainId ix,
      chainName = run_chainName rn,
      lastIndexedBlock = n,
      blocksIndexed = st_blocksIndexed st,
      extrinsicsIndexed = st_extrinsicsIndexed st,
      eventsIndexed = st_eventsIndexed st,
      isComplete = flag,
      targetEndBlock = Some (run_endBlock rn)\<rparr>"

definition insert_calls :: "block_doc \<Rightarrow> extrinsic_doc list \<Rightarrow> event_doc list \<Rightarrow> effect list" where
  "insert_calls blockDoc extrinsicDocs eventDocs =
     BlocksInsertOne blockDoc #
     (if extrinsicDocs \<noteq> [] then [ExtrinsicsInsertMany extrinsicDocs] else []) @
     (if eventDocs \<noteq> [] then [EventsInsertMany eventDocs] else [])"

text \<open>The body of the \<^verbatim>\<open>try\<close>, up to the first throw.\<close>

definition try_block ::
  "indexer \<Rightarrow> run \<Rightarrow> index_state \<Rightarrow> fetched_block_data \<Rightarrow> (js_error + unit) \<times> index_state" where
  "try_block ix rn st fetched =
     (case normalize ix fetched of
        Inl error \<Rightarrow> (Inl error, st)
      | Inr (blockDoc, extrinsicDocs, eventDocs) \<Rightarrow>
          let st1 = emit (blockNum fetched) (insert_calls blockDoc extrinsicDocs eventDocs) st in
          (case insert_result (idx_db ix) blockDoc extrinsicDocs eventDocs of
             Some error \<Rightarrow> (Inl error, st1)
           | None \<Rightarrow>
               let st2 = st1\<lparr>st_blocksIndexed := st_blocksIndexed st1 + 1,
                              st_extrinsicsIndexed := st_extrinsicsIndexed st1 + int (length extrinsicDocs),
                              st_eventsIndexed := st_eventsIndexed st1 + int (length eventDocs)\<rparr>;
                   doc = progress_document ix rn st2 (blockNum fetched)
                           (blockNum fetched = run_endBlock rn);
                   st3 = emit (blockNum fetched) [UpdateScanProgress doc] st2
               in (case updateScanProgress_result (idx_db ix) doc of
                     Some error \<Rightarrow> (Inl error, st3)
                   | None \<Rightarrow>
                       (case run_onProgress rn of
                          None \<Rightarrow> (Inr (), st3)
                        | Some callback \<Rightarrow>
                            let info = \<lparr>cb_lastIndexedBlock = blockNum fetched,
                                        cb_blocksIndexed = st_blocksIndexed st3,
                                        cb_extrinsicsIndexed = st_extrinsicsIndexed st3,
                                        cb_eventsIndexed = st_eventsIndexed st3,
                                        cb_activeFetches = length (fetchQueue st3)\<rparr>;
                                st4 = emit (blockNum fetched) [OnProgress info] st3
                            in (case callback info of
                                  Some error \<Rightarrow> (Inl error, st4)
                                | None \<Rightarrow> (Inr (), st4))))))"

text \<open>
  The \<^verbatim>\<open>catch\<close>: the progress record is written at \<open>blockNum - 1\<close> and the error is
  thrown again (a rejected write throws its own error instead).
\<close>

definition catch_block ::
  "indexer \<Rightarrow> run \<Rightarrow> int \<Rightarrow> js_error \<Rightarrow> index_state \<Rightarrow> (js_error + unit) \<times> index_state" where
  "catch_block ix rn n error st =
     (let doc = progress_document ix rn st (n - 1) False;
          st' = emit n [UpdateScanProgress doc] st
      in case updateScanProgress_result (idx_db ix) doc of
           Some error' \<Rightarrow> (Inl error', st')
         | None \<Rightarrow> (Inl error, st'))"

definition process_block ::
  "indexer \<Rightarrow> run \<Rightarrow> index_state \<Rightarrow> fetched_block_data \<Rightarrow> (js_error + unit) \<times> index_state" where
  "process_block ix rn st fetched =
     (case try_block ix rn st fetched of
        (Inl error, st') \<Rightarrow> catch_block ix rn (blockNum fetched) error st'
      | (Inr u, st') \<Rightarrow> (Inr u, st'))"

subsection \<open>The loop of index\<close>

text \<open>The inner \<^verbatim>\<open>while\<close>: it fills the queue and returns it with the next height.\<close>

function fill_queue :: "int \<Rightarrow> int \<Rightarrow> int list \<Rightarrow> int \<Rightarrow> int list \<times> int" where
  "fill_queue conc endB queue cur =
     (if int (length queue) < conc \<and> cur \<le> endB
      then fill_queue conc endB (queue @ [cur]) (cur + 1)
      else (queue, cur))"
  by pat_completeness auto
termination
  by (relation "measure (\<lambda>(conc, endB, queue, cur). nat (endB + 1 - cur))") auto

declare fill_queue.simps [simp del]

text \<open>
  One pass through the body of the outer \<^verbatim>\<open>while\<close>: the queue is filled, the fetch at
  its head is awaited, and its block is processed. The pass goes on to the test of the
  loop (\<open>Continue\<close>), leaves \<^verbatim>\<open>index\<close> with a thrown error (\<open>Return\<close>), or waits for
  ever for a fetch that never settles (\<open>Hang\<close>).

  The outcome of a fetch is read where the source awaits it, at the head of the queue.
  The source gives a fetch no rejection handler while it waits in the queue behind the
  head. What the runtime does when such a fetch rejects before its turn (Node by default
  ends the process) is not part of the model: the two theorems below that say that a run
  ends, and with which error, are stated for runs in which no fetch queued behind the
  head rejects. A fetch that is awaited in the pass that issues it, as every fetch is
  with concurrency 1, always has its handler.
\<close>

datatype iteration_result =
    Continue index_state
  | Return "(js_error + unit) \<times> index_state"
  | Hang

definition iteration :: "indexer \<Rightarrow> run \<Rightarrow> index_state \<Rightarrow> iteration_result" where
  "iteration ix rn st =
     (case fill_queue (run_concurrency rn) (run_endBlock rn) (fetchQueue st) (currentBlock st) of
        (queue, cur) \<Rightarrow>
          (case queue of
             [] \<Rightarrow> Continue (st\<lparr>currentBlock := cur, fetchQueue := []\<rparr>)
           | n # rest \<Rightarrow>
               (case fetchBlockData (idx_api ix) n of
                  None \<Rightarrow> Hang
                | Some (Inl error) \<Rightarrow>
                    Return (Inl error, st\<lparr>currentBlock := cur, fetchQueue := rest\<rparr>)
                | Some (Inr None) \<Rightarrow>
                    Continue (st\<lparr>currentBlock := cur, fetchQueue := rest\<rparr>)
                | Some (Inr (Some fetchedData)) \<Rightarrow>
                    (case process_block ix rn (st\<lparr>currentBlock := cur, fetchQueue := rest\<rparr>)
                            fetchedData of
                       (Inl error, st') \<Rightarrow> Return (Inl error, st')
                     | (Inr u, st') \<Rightarrow> Continue st'))))"

text \<open>
  The outer \<^verbatim>\<open>while\<close>. It may run forever: the value is \<open>None\<close> then. A returned pair
  holds \<open>Inl e\<close> when \<^verbatim>\<open>index\<close> throws \<open>e\<close>, \<open>Inr ()\<close> when the loop ends, and the
  variables at that point.
\<close>

partial_function (option) index_loop ::
  "indexer \<Rightarrow> run \<Rightarrow> index_state \<Rightarrow> ((js_error + unit) \<times> index_state) option" where
  "index_loop ix rn st =
     (if currentBlock st \<le> run_endBlock rn
      then (case iteration ix rn st of
              Continue st' \<Rightarrow> index_loop ix rn st'
            | Return r \<Rightarrow> Some r
            | Hang \<Rightarrow> None)
      else Some (Inr (), st))"

text \<open>
  The variables at the test of the loop after \<open>k\<close> passes, when the loop gets that far:
  what an observer of a run sees of it, also of a run that never returns.
\<close>

fun state_after :: "indexer \<Rightarrow> run \<Rightarrow> nat \<Rightarrow> index_state \<Rightarrow> index_state option" where
  "state_after ix rn 0 st = Some st"
| "state_after ix rn (Suc k) st =
     (if currentBlock st \<le> run_endBlock rn
      then (case iteration ix rn st of
              Continue st' \<Rightarrow> state_after ix rn k st'
            | Return r \<Rightarrow> None
            | Hang \<Rightarrow> None)
      else None)"

subsection \<open>index\<close>

text \<open>
  The start of \<^verbatim>\<open>index\<close>: the progress record is read, the range is resolved, the
  counters start from the record. The gap check made there only prints its result.
\<close>

definition resolve_startBlock :: "int option \<Rightarrow> scan_progress option \<Rightarrow> int \<Rightarrow> int" where
  "resolve_startBlock userStartBlock progress endB =
     (case userStartBlock of
        Some s \<Rightarrow> s
      | None \<Rightarrow>
          (case progress of
             Some p \<Rightarrow> if lastIndexedBlock p < endB then lastIndexedBlock p + 1 else 0
           | None \<Rightarrow> 0))"

definition resolve_run :: "indexer \<Rightarrow> indexer_options \<Rightarrow> run" where
  "resolve_run ix options =
     \<lparr>run_endBlock = (case endBlock options of Some e \<Rightarrow> e | None \<Rightarrow> header_number (idx_api ix)),
      run_concurrency = (case concurrency options of Some c \<Rightarrow> c | None \<Rightarrow> 5),
      run_chainName = system_chain (idx_api ix),
      run_onProgress = onProgress options\<rparr>"

definition initial_state :: "indexer \<Rightarrow> indexer_options \<Rightarrow> index_state" where
  "initial_state ix options =
     (let progress = getScanProgress (idx_db ix) (idx_chainId ix) in
      \<lparr>currentBlock =
         resolve_startBlock (startBlock options) progress (run_endBlock (resolve_run ix options)),
       fetchQueue = [],
       st_blocksIndexed = (case progress of Some p \<Rightarrow> blocksIndexed p | None \<Rightarrow> 0),
       st_extrinsicsIndexed = (case progress of Some p \<Rightarrow> extrinsicsIndexed p | None \<Rightarrow> 0),
       st_eventsIndexed = (case progress of Some p \<Rightarrow> eventsIndexed p | None \<Rightarrow> 0),
       trace = []\<rparr>)"

definition index :: "indexer \<Rightarrow> indexer_options \<Rightarrow> ((js_error + unit) \<times> index_state) option" where
  "index ix options = index_loop ix (resolve_run ix options) (initial_state ix options)"

section \<open>Notions used in the statements\<close>

text \<open>The heights of the blocks whose insert has been issued, in the order of the calls.\<close>

fun inserted_blocks :: "(int \<times> effect) list \<Rightarrow> int list" where
  "inserted_blocks [] = []"
| "inserted_blocks ((n, BlocksInsertOne b) # t) = blk_number b # inserted_blocks t"
| "inserted_blocks (_ # t) = inserted_blocks t"

text \<open>The payloads the progress callback has been called with, in the order of the calls.\<close>

fun callbacks :: "(int \<times> effect) list \<Rightarrow> progress_info list" where
  "callbacks [] = []"
| "callbacks ((n, OnProgress p) # t) = p # callbacks t"
| "callbacks (_ # t) = callbacks t"

text \<open>Every call of the callback recorded for a height reports that height.\<close>

definition callbacks_tagged :: "(int \<times> effect) list \<Rightarrow> bool" where
  "callbacks_tagged tr \<longleftrightarrow>
     (\<forall>c \<in> set tr. case snd c of OnProgress p \<Rightarrow> cb_lastIndexedBlock p = fst c | _ \<Rightarrow> True)"

text \<open>
  The invariant of the loop: the queue holds the consecutive heights from some \<open>lo\<close> up
  to the next height to issue, and every call made so far was made for a height below
  \<open>lo\<close>, in the order of the heights.
\<close>

definition ordered_upto :: "int \<Rightarrow> (int \<times> effect) list \<Rightarrow> bool" where
  "ordered_upto lo tr \<longleftrightarrow>
     sorted (map fst tr) \<and> sorted_wrt (<) (inserted_blocks tr) \<and>
     (\<forall>t \<in> set tr. fst t < lo) \<and> (\<forall>h \<in> set (inserted_blocks tr). h < lo)"

definition loop_inv :: "index_state \<Rightarrow> bool" where
  "loop_inv st \<longleftrightarrow>
     (\<exists>lo. lo \<le> currentBlock st \<and> fetchQueue st = [lo..currentBlock st - 1] \<and>
           ordered_upto lo (trace st))"

text \<open>Processing the block at height \<open>n\<close> adds calls for \<open>n\<close> only, and leaves the queue.\<close>

definition extends_at :: "int \<Rightarrow> index_state \<Rightarrow> index_state \<Rightarrow> bool" where
  "extends_at n st st' \<longleftrightarrow>
     (\<exists>new. trace st' = trace st @ new \<and> (\<forall>t \<in> set new. fst t = n) \<and>
            inserted_blocks new \<in> {[], [n]}) \<and>
     currentBlock st' = currentBlock st \<and> fetchQueue st' = fetchQueue st"

text \<open>
  The gap detector as the specification words it. The persisted heights of a chain are
  read in ascending order. Before the first height the next expected height is 0, after
  a height \<open>h\<close> it is \<open>h + 1\<close>; every height found above the expected one gives the range
  from the expected height to the one below the height found. A trailing range up to
  \<open>lastIndexedBlock\<close> follows when the highest persisted height is below it.
\<close>

definition persisted_heights :: "database \<Rightarrow> int \<Rightarrow> int list" where
  "persisted_heights d cid = sort (map blk_number (filter (\<lambda>b. blk_chainId b = cid) (blocks d)))"

definition jumps :: "int list \<Rightarrow> (int \<times> int) list" where
  "jumps heights =
     map (\<lambda>(expected, found). (expected, found - 1))
       (filter (\<lambda>(expected, found). expected < found)
          (zip (0 # map (\<lambda>h. h + 1) heights) heights))"

definition missing_ranges_spec :: "int list \<Rightarrow> int \<Rightarrow> (int \<times> int) list" where
  "missing_ranges_spec heights lastIdx =
     jumps heights @ (if last heights < lastIdx then [(last heights + 1, lastIdx)] else [])"

text \<open>
  The declared arguments that are decoded before the first one that fails: the names
  paired with the values, up to the first value that is missing or does not decode.
\<close>

fun decoded_before_failure :: "string list \<Rightarrow> any_json option list \<Rightarrow> (string \<times> any_json) list" where
  "decoded_before_failure (n # ns) (Some v # vs) = (n, v) # decoded_before_failure ns vs"
| "decoded_before_failure ns vs = []"

section \<open>Sample inputs\<close>

definition pruned_error :: js_error where
  "pruned_error = \<lparr>message = Some ''State already discarded for block'', code = JNum 4003\<rparr>"

definition overlapping_error :: js_error where
  "overlapping_error = \<lparr>message = Some ''Unknown block: request timeout'', code = JUndefined\<rparr>"

definition decode_error :: js_error where
  "decode_error = \<lparr>message = Some ''Unable to decode event data'', code = JUndefined\<rparr>"

definition sample_transfer :: extrinsic where
  "sample_transfer =
     \<lparr>ex_section = ''balances'', ex_method = ''transfer'',
      ex_method_args = [Some ''Alice'', Some ''100''],
      ex_meta_args = Some [''dest'', ''value''],
      ex_signer = Some ''Bob'', ex_isSigned = True, ex_nonce = Some 1, ex_tip = Some ''0'',
      ex_hash = ''0xe1''\<rparr>"

definition system_event :: "string \<Rightarrow> nat \<Rightarrow> event_record" where
  "system_event m i =
     \<lparr>er_phase = ApplyExtrinsic i, er_section = ''system'', er_method = m,
      er_data_toHuman = Inr ''[]'', er_data0_toString = Some ''BadOrigin'', er_topics = Some []\<rparr>"

definition sample_reply ::
  "extrinsic list \<Rightarrow> event_record list \<Rightarrow> string \<times> signed_block \<times> int \<times> event_record list" where
  "sample_reply xs evs =
     (''0xb'', \<lparr>header_parentHash = ''0xp'', header_stateRoot = ''0xs'',
                header_extrinsicsRoot = ''0xx'', block_extrinsics = xs\<rparr>, 1000, evs)"

definition full_block :: "string \<times> signed_block \<times> int \<times> event_record list" where
  "full_block = sample_reply [sample_transfer] [system_event ''ExtrinsicSuccess'' 0]"

definition sample_api ::
  "(int \<Rightarrow> nat \<Rightarrow> js_error + (string \<times> signed_block \<times> int \<times> event_record list)) \<Rightarrow> api" where
  "sample_api replies =
     \<lparr>rpc_block = replies, header_number = 2, system_chain = ''dev'',
      ExtrinsicSuccess_is = (\<lambda>r. er_section r = ''system'' \<and> er_method r = ''ExtrinsicSuccess''),
      ExtrinsicFailed_is = (\<lambda>r. er_section r = ''system'' \<and> er_method r = ''ExtrinsicFailed'')\<rparr>"

definition sample_db :: "scan_progress list \<Rightarrow> database" where
  "sample_db ps =
     \<lparr>blocks = [], scanProgress = ps, insert_result = (\<lambda>b xs es. None),
      updateScanProgress_result = (\<lambda>p. None)\<rparr>"

definition sample_indexer ::
  "(int \<Rightarrow> nat \<Rightarrow> js_error + (string \<times> signed_block \<times> int \<times> event_record list)) \<Rightarrow>
   database \<Rightarrow> indexer" where
  "sample_indexer replies d = \<lparr>idx_api = sample_api replies, idx_db = d, idx_chainId = 1\<rparr>"

definition sample_options :: "int \<Rightarrow> int \<Rightarrow> int \<Rightarrow> indexer_options" where
  "sample_options s e c =
     \<lparr>startBlock = Some s, endBlock = Some e, concurrency = Some c, onProgress = Some (\<lambda>p. None)\<rparr>"

definition default_options :: indexer_options where
  "default_options = \<lparr>startBlock = None, endBlock = None, concurrency = None, onProgress = None\<rparr>"

definition block_at :: "int \<Rightarrow> int \<Rightarrow> block_doc" where
  "block_at cid n =
     \<lparr>blk_number = n, blk_hash = ''0xb'', blk_parentHash = ''0xp'', blk_stateRoot = ''0xs'',
      blk_extrinsicsRoot = ''0xx'', blk_timestamp = 1000, blk_extrinsicCount = 0,
      blk_eventCount = 0, blk_author = None, blk_chainId = cid\<rparr>"

definition progress_at :: "int \<Rightarrow> int \<Rightarrow> scan_progress" where
  "progress_at cid n =
     \<lparr>chainId = cid, chainName = ''dev'', lastIndexedBlock = n, blocksIndexed = 6,
      extrinsicsIndexed = 0, eventsIndexed = 0, isComplete = False, targetEndBlock = Some 9\<rparr>"

definition gap_db :: database where
  "gap_db =
     (sample_db [progress_at 1 9])\<lparr>blocks := map (block_at 1) [5, 0, 9, 1, 6, 2] @ [block_at 2 3]\<rparr>"

definition fetched_at ::
  "int \<Rightarrow> string \<times> signed_block \<times> int \<times> event_record list \<Rightarrow> fetched_block_data" where
  "fetched_at n reply =
     (case reply of (h, sb, ts, evs) \<Rightarrow>
        \<lparr>blockNum = n, blockHash = h, signedBlock = sb, timestampMs = ts, allEvents = evs\<rparr>)"

definition half_decoded :: extrinsic where
  "half_decoded = sample_transfer\<lparr>ex_method_args := [Some ''Alice'', None]\<rparr>"

definition broken_block :: "string \<times> signed_block \<times> int \<times> event_record list" where
  "broken_block =
     sample_reply [sample_transfer]
       [(system_event ''ExtrinsicSuccess'' 0)\<lparr>er_data_toHuman := Inl decode_error\<rparr>]"

definition duplicate_key_error :: js_error where
  "duplicate_key_error = \<lparr>message = Some ''E11000 duplicate key error'', code = JNum 11000\<rparr>"

definition rejecting_db :: database where
  "rejecting_db =
     (sample_db [])\<lparr>insert_result :=
        (\<lambda>b xs es. if blk_number b = 1 then Some duplicate_key_error else None)\<rparr>"

definition store_down_error :: js_error where
  "store_down_error = \<lparr>message = Some ''MongoServerSelectionError: store is down'', code = JUndefined\<rparr>"

definition invalid_params_error :: js_error where
  "invalid_params_error = \<lparr>message = Some ''Invalid params'', code = JNum (- 32602)\<rparr>"

definition failing_store :: database where
  "failing_store =
     (sample_db [])\<lparr>insert_result := (\<lambda>b xs es. Some duplicate_key_error),
                     updateScanProgress_result := (\<lambda>p. Some store_down_error)\<rparr>"

section \<open>Unfolding the model on a given input\<close>

lemmas sample_defs = pruned_error_def overlapping_error_def decode_error_def sample_transfer_def
  system_event_def sample_reply_def full_block_def sample_api_def sample_db_def
  sample_indexer_def sample_options_def default_options_def block_at_def progress_at_def
  gap_db_def fetched_at_def half_decoded_def broken_block_def duplicate_key_error_def
  rejecting_db_def store_down_error_def invalid_params_error_def failing_store_def

lemmas classifier_defs = isStatePrunedError_def isNetworkError_def errorMessage_of_def
  errorCode_of_def toLowerCase_def toLowerCase_char_def

lemmas model_defs = index_def resolve_run_def initial_state_def resolve_startBlock_def
  getScanProgress_def iteration_def fetchBlockData_def catch_pruned_def retryOnNetworkError_def
  retryWithBackoff_def network_retry_options_def fetch_attempt_def process_block_def
  try_block_def catch_block_def normalize_def block_document_def extrinsic_documents_def
  extrinsic_document_def decode_args_def emit_def progress_document_def insert_calls_def
  fill_queue.simps classifier_defs

section \<open>The classifiers and the retry loop\<close>

lemma str_includes_sublist: "str_includes s sub \<longleftrightarrow> sublist sub s"
  by (induction s) (auto simp: sublist_Cons_right)

lemma retry_loop_Inr:
  assumes "retry_loop opts fn k d = Some r"
  shows "\<forall>v. r = Inr v \<longrightarrow> (\<exists>j. fn j = Inr v)"
  by (rule retry_loop.raw_induct
        [where P = "\<lambda>opts fn k d r. \<forall>v. r = Inr v \<longrightarrow> (\<exists>j. fn j = Inr v)", OF _ assms])
     (auto split: sum.splits if_splits)

lemma fetchBlockData_blockNum:
  assumes "fetchBlockData a n = Some (Inr (Some fetched))"
  shows "blockNum fetched = n"
proof -
  from assms obtain r where r: "retryOnNetworkError (fetch_attempt a n) = Some r"
    and c: "catch_pruned (Some r) = Some (Inr (Some fetched))"
    by (auto simp: fetchBlockData_def catch_pruned_def split: option.splits)
  from c have "r = Inr fetched"
    by (auto simp: catch_pruned_def split: sum.splits if_splits)
  with r retry_loop_Inr[of network_retry_options "fetch_attempt a n" 0 _ r]
  obtain j where "fetch_attempt a n j = Inr fetched"
    by (auto simp: retryOnNetworkError_def retryWithBackoff_def)
  then show ?thesis
    by (auto simp: fetch_attempt_def split: sum.splits prod.splits)
qed

text \<open>
  C7, as the specification states it: no error is classified both as network-transient
  and as pruned-state. The two classifiers look for different substrings of the same
  message, and a message can hold one of each: the error below is classified by both.
\<close>

theorem classifiers_overlap:
  "isNetworkError overlapping_error \<and> isStatePrunedError overlapping_error"
  by (simp add: overlapping_error_def classifier_defs)

text \<open>
  C7, amended: the two classifiers may both hold of an error, and the fetch of a block
  still treats every error in exactly one of three ways, the network classifier going
  first. An error thrown by an attempt is retried when it is network-transient;
  otherwise the height is skipped when the error is pruned-state; otherwise the error
  is thrown to the caller.
\<close>

theorem fetch_error_disposition:
  assumes "fetch_attempt a n k = Inl e"
  shows "catch_pruned (retry_loop network_retry_options (fetch_attempt a n) k d) =
           (if isNetworkError e
            then catch_pruned
                   (retry_loop network_retry_options (fetch_attempt a n) (k + 1) (min (d * 1) 60000))
            else if isStatePrunedError e then Some (Inr None)
            else Some (Inl e))"
  using assms
  by (subst retry_loop.simps) (simp add: network_retry_options_def catch_pruned_def)

text \<open>
  An instance of C7: at height 7 the first attempt throws an error that both classifiers
  accept, and it is retried; the second attempt throws a pruned-state error that is not
  network-transient, and the height is skipped.
\<close>

theorem fetch_error_disposition_witness:
  "fetch_attempt (sample_api (\<lambda>h k. if k = 0 then Inl overlapping_error else Inl pruned_error)) 7 0
     = Inl overlapping_error \<and>
   fetch_attempt (sample_api (\<lambda>h k. if k = 0 then Inl overlapping_error else Inl pruned_error)) 7 1
     = Inl pruned_error \<and>
   isNetworkError overlapping_error \<and> isStatePrunedError overlapping_error \<and>
   \<not> isNetworkError pruned_error \<and> isStatePrunedError pruned_error \<and>
   fetchBlockData (sample_api (\<lambda>h k. if k = 0 then Inl overlapping_error else Inl pruned_error)) 7
     = Some (Inr None)"
proof -
  let ?a = "sample_api (\<lambda>h k. if k = 0 then Inl overlapping_error else Inl pruned_error)"
  have a0: "fetch_attempt ?a 7 0 = Inl overlapping_error"
    and a1: "fetch_attempt ?a 7 1 = Inl pruned_error"
    by (simp_all add: fetch_attempt_def sample_api_def)
  have c: "isNetworkError overlapping_error" "isStatePrunedError overlapping_error"
    "\<not> isNetworkError pruned_error" "isStatePrunedError pruned_error"
    by (simp_all add: overlapping_error_def pruned_error_def classifier_defs)
  from fetch_error_disposition[OF a0, of 60000] fetch_error_disposition[OF a1, of 60000] c
  have "fetchBlockData ?a 7 = Some (Inr None)"
    by (simp add: fetchBlockData_def retryOnNetworkError_def retryWithBackoff_def
        network_retry_options_def)
  with a0 a1 c show ?thesis by simp
qed

section \<open>Resolving the start height\<close>

text \<open>
  C2, as the specification states it: with no explicit start, a progress record with
  \<open>lastIndexedBlock = k\<close> gives the start height \<open>k + 1\<close>, and 0 only when there is no
  record. The source resumes only when \<open>k\<close> is below the end height: with a record at
  height 2 and the chain tip at 2, the start height is 0, not 3.
\<close>

theorem resume_start_counterexample:
  "startBlock default_options = None \<and>
   getScanProgress (idx_db (sample_indexer (\<lambda>h k. Inr full_block) (sample_db [progress_at 1 2])))
     (idx_chainId (sample_indexer (\<lambda>h k. Inr full_block) (sample_db [progress_at 1 2])))
     = Some (progress_at 1 2) \<and>
   lastIndexedBlock (progress_at 1 2) = 2 \<and>
   currentBlock (initial_state (sample_indexer (\<lambda>h k. Inr full_block) (sample_db [progress_at 1 2]))
      default_options) = 0"
  by (simp add: sample_defs model_defs)

text \<open>
  C2, amended: with no explicit start, a progress record with \<open>lastIndexedBlock = k\<close>
  below the resolved end height gives the start height \<open>k + 1\<close>; with no progress record
  the start height is 0.
\<close>

theorem resume_start:
  "(startBlock options = None \<and> getScanProgress (idx_db ix) (idx_chainId ix) = Some p \<and>
      lastIndexedBlock p < run_endBlock (resolve_run ix options)
      \<longrightarrow> currentBlock (initial_state ix options) = lastIndexedBlock p + 1) \<and>
   (startBlock options = None \<and> getScanProgress (idx_db ix) (idx_chainId ix) = None
      \<longrightarrow> currentBlock (initial_state ix options) = 0)"
  by (simp add: initial_state_def resolve_startBlock_def)

text \<open>
  An instance of C2: a record at height 0 with the chain tip at 2 resumes at 1, and a
  store with no record starts at 0.
\<close>

theorem resume_start_witness:
  "lastIndexedBlock (progress_at 1 0) < run_endBlock (resolve_run
       (sample_indexer (\<lambda>h k. Inr full_block) (sample_db [progress_at 1 0])) default_options) \<and>
   currentBlock (initial_state
       (sample_indexer (\<lambda>h k. Inr full_block) (sample_db [progress_at 1 0])) default_options) = 1 \<and>
   currentBlock (initial_state
       (sample_indexer (\<lambda>h k. Inr full_block) (sample_db [])) default_options) = 0"
proof -
  let ?ix = "sample_indexer (\<lambda>h k. Inr full_block) (sample_db [progress_at 1 0])"
  let ?iy = "sample_indexer (\<lambda>h k. Inr full_block) (sample_db [])"
  have s: "startBlock default_options = None" by (simp add: default_options_def)
  have p: "getScanProgress (idx_db ?ix) (idx_chainId ?ix) = Some (progress_at 1 0)"
    by (simp add: sample_defs getScanProgress_def)
  have l: "lastIndexedBlock (progress_at 1 0) < run_endBlock (resolve_run ?ix default_options)"
    by (simp add: sample_defs resolve_run_def)
  have l0: "lastIndexedBlock (progress_at 1 0) = 0" by (simp add: progress_at_def)
  have q: "getScanProgress (idx_db ?iy) (idx_chainId ?iy) = None"
    by (simp add: sample_defs getScanProgress_def)
  from resume_start[of default_options ?ix "progress_at 1 0"] s p l l0
  have a: "currentBlock (initial_state ?ix default_options) = 1" by simp
  from resume_start[of default_options ?iy] s q
  have b: "currentBlock (initial_state ?iy default_options) = 0" by simp
  from l a b show ?thesis by simp
qed

section \<open>The gap detector\<close>

lemma scan_indexedBlocks_eq:
  "scan_indexedBlocks hs e acc =
     acc @ map (\<lambda>(expected, found). (expected, found - 1))
       (filter (\<lambda>(expected, found). expected < found) (zip (e # map (\<lambda>h. h + 1) hs) hs))"
  by (induction hs arbitrary: e acc) auto

text \<open>
  C5: the gap detector returns the empty list when there is no progress record or its
  \<open>lastIndexedBlock\<close> is 0. Otherwise, with persisted heights, it returns the ranges of
  the specification: one range from the expected height to the one below the height
  found at every jump, and the trailing range up to \<open>lastIndexedBlock\<close> when the highest
  persisted height is below it. With no persisted height it returns the one range from 0
  to \<open>lastIndexedBlock\<close>. The persisted heights 0, 1, 2, 5, 6, 9 with \<open>lastIndexedBlock\<close>
  9 give the ranges from 3 to 4 and from 7 to 8.
\<close>

theorem gap_detector:
  "(getScanProgress d cid = None \<longrightarrow> findMissingBlocks d cid = []) \<and>
   (getScanProgress d cid = Some p \<and> lastIndexedBlock p = 0 \<longrightarrow> findMissingBlocks d cid = []) \<and>
   (getScanProgress d cid = Some p \<and> lastIndexedBlock p \<noteq> 0 \<and> persisted_heights d cid \<noteq> [] \<longrightarrow>
      findMissingBlocks d cid = missing_ranges_spec (persisted_heights d cid) (lastIndexedBlock p)) \<and>
   (getScanProgress d cid = Some p \<and> lastIndexedBlock p \<noteq> 0 \<and> persisted_heights d cid = [] \<longrightarrow>
      findMissingBlocks d cid = [(0, lastIndexedBlock p)]) \<and>
   (getScanProgress d cid = Some p \<and> lastIndexedBlock p = 9 \<and>
      persisted_heights d cid = [0, 1, 2, 5, 6, 9] \<longrightarrow>
      findMissingBlocks d cid = [(3, 4), (7, 8)])"
  by (simp add: findMissingBlocks_def persisted_heights_def missing_ranges_spec_def jumps_def
      scan_indexedBlocks_eq Let_def)

text \<open>
  An instance of C5: a store that holds the blocks 5, 0, 9, 1, 6, 2 of chain 1 and a
  block of another chain, with the progress record of chain 1 at 9; a chain with no
  record; a record at 0; and a record at 4 with no block.
\<close>

theorem gap_detector_witness:
  "getScanProgress gap_db 1 = Some (progress_at 1 9) \<and>
   persisted_heights gap_db 1 = [0, 1, 2, 5, 6, 9] \<and>
   findMissingBlocks gap_db 1 = [(3, 4), (7, 8)] \<and>
   missing_ranges_spec (persisted_heights gap_db 1) 9 = [(3, 4), (7, 8)] \<and>
   findMissingBlocks gap_db 2 = [] \<and>
   findMissingBlocks (sample_db [progress_at 1 0]) 1 = [] \<and>
   findMissingBlocks (sample_db [progress_at 1 4]) 1 = [(0, 4)]"
proof -
  have p: "getScanProgress gap_db 1 = Some (progress_at 1 9)"
    by (simp add: getScanProgress_def gap_db_def sample_db_def progress_at_def)
  have h: "persisted_heights gap_db 1 = [0, 1, 2, 5, 6, 9]"
    by (simp add: persisted_heights_def gap_db_def sample_db_def block_at_def)
  have l: "lastIndexedBlock (progress_at 1 9) = 9" by (simp add: progress_at_def)
  have n2: "getScanProgress gap_db 2 = None"
    by (simp add: getScanProgress_def gap_db_def sample_db_def progress_at_def)
  have p0: "getScanProgress (sample_db [progress_at 1 0]) 1 = Some (progress_at 1 0)"
    "lastIndexedBlock (progress_at 1 0) = 0"
    by (simp_all add: getScanProgress_def sample_db_def progress_at_def)
  have p4: "getScanProgress (sample_db [progress_at 1 4]) 1 = Some (progress_at 1 4)"
    "lastIndexedBlock (progress_at 1 4) = 4" "persisted_heights (sample_db [progress_at 1 4]) 1 = []"
    by (simp_all add: getScanProgress_def sample_db_def progress_at_def persisted_heights_def)
  have ne: "persisted_heights gap_db 1 \<noteq> []" by (simp add: h)
  have l0: "lastIndexedBlock (progress_at 1 9) \<noteq> 0" by (simp add: l)
  from gap_detector[of gap_db 1 "progress_at 1 9"] p h l
  have a1: "findMissingBlocks gap_db 1 = [(3, 4), (7, 8)]" by blast
  from gap_detector[of gap_db 1 "progress_at 1 9"] p ne l0
  have a2': "findMissingBlocks gap_db 1 =
      missing_ranges_spec (persisted_heights gap_db 1) (lastIndexedBlock (progress_at 1 9))"
    by blast
  note a = a1 a2'[unfolded l a1, symmetric]
  from gap_detector[of gap_db 2] n2 have b: "findMissingBlocks gap_db 2 = []" by simp
  from gap_detector[of "sample_db [progress_at 1 0]" 1 "progress_at 1 0"] p0
  have c: "findMissingBlocks (sample_db [progress_at 1 0]) 1 = []" by simp
  from gap_detector[of "sample_db [progress_at 1 4]" 1 "progress_at 1 4"] p4
  have d: "findMissingBlocks (sample_db [progress_at 1 4]) 1 = [(0, 4)]" by simp
  from p h a b c d show ?thesis by simp
qed

section \<open>The order of the calls\<close>

lemma inserted_blocks_append:
  "inserted_blocks (xs @ ys) = inserted_blocks xs @ inserted_blocks ys"
  by (induction xs rule: inserted_blocks.induct) auto

lemma extends_at_drop:
  assumes "take (length (trace st)) (trace st') = trace st"
    and "\<forall>t \<in> set (drop (length (trace st)) (trace st')). fst t = n"
    and "inserted_blocks (drop (length (trace st)) (trace st')) \<in> {[], [n]}"
    and "currentBlock st' = currentBlock st" and "fetchQueue st' = fetchQueue st"
  shows "extends_at n st st'"
  unfolding extends_at_def
  using assms by (metis append_take_drop_id)

lemma try_block_trace:
  assumes "try_block ix rn st fetched = (r, st')"
  shows "extends_at (blockNum fetched) st st'"
  using assms
  unfolding try_block_def
  by (intro extends_at_drop)
     (auto simp: emit_def insert_calls_def normalize_def block_document_def Let_def
      split: sum.splits option.splits prod.splits if_splits)

lemma catch_block_trace:
  assumes "catch_block ix rn n e st = (r, st')"
  shows "trace st' = trace st @ [(n, UpdateScanProgress (progress_document ix rn st (n - 1) False))] \<and>
         currentBlock st' = currentBlock st \<and> fetchQueue st' = fetchQueue st"
  using assms
  unfolding catch_block_def
  by (auto simp: emit_def Let_def split: option.splits)

lemma process_block_trace:
  assumes "process_block ix rn st fetched = (r, st')"
  shows "extends_at (blockNum fetched) st st'"
proof (cases "try_block ix rn st fetched")
  case (Pair r1 st1)
  from try_block_trace[OF Pair] obtain new where new:
    "trace st1 = trace st @ new" "\<forall>t \<in> set new. fst t = blockNum fetched"
    "inserted_blocks new \<in> {[], [blockNum fetched]}"
    "currentBlock st1 = currentBlock st" "fetchQueue st1 = fetchQueue st"
    unfolding extends_at_def by blast
  show ?thesis
  proof (cases r1)
    case (Inl e)
    with assms Pair have "catch_block ix rn (blockNum fetched) e st1 = (r, st')"
      by (simp add: process_block_def)
    from catch_block_trace[OF this] obtain doc where doc:
      "trace st' = trace st1 @ [(blockNum fetched, UpdateScanProgress doc)]"
      "currentBlock st' = currentBlock st1" "fetchQueue st' = fetchQueue st1"
      by blast
    have "trace st' = trace st @ (new @ [(blockNum fetched, UpdateScanProgress doc)])"
      using new(1) doc(1) by simp
    moreover have
      "\<forall>t \<in> set (new @ [(blockNum fetched, UpdateScanProgress doc)]). fst t = blockNum fetched"
      using new(2) by simp
    moreover have
      "inserted_blocks (new @ [(blockNum fetched, UpdateScanProgress doc)]) \<in> {[], [blockNum fetched]}"
      using new(3) by (simp add: inserted_blocks_append)
    ultimately show ?thesis
      unfolding extends_at_def using new(4,5) doc(2,3) by metis
  next
    case (Inr u)
    with assms Pair have "st' = st1" by (simp add: process_block_def)
    with try_block_trace[OF Pair] show ?thesis by simp
  qed
qed

lemma ordered_upto_extend:
  assumes "ordered_upto lo (trace st)" and "extends_at lo st st'"
  shows "ordered_upto (lo + 1) (trace st')"
proof -
  from assms(2) obtain new where tr: "trace st' = trace st @ new"
    and new: "\<forall>t \<in> set new. fst t = lo" "inserted_blocks new \<in> {[], [lo]}"
    unfolding extends_at_def by blast
  have "sorted (map fst new)"
    using new(1) by (induction new) auto
  with assms(1) new show ?thesis
    unfolding ordered_upto_def tr
    by (auto simp: sorted_append sorted_wrt_append inserted_blocks_append
        dest: order_less_imp_le)
qed

lemma fill_queue_shape:
  "fill_queue conc endB q cur = (q', cur') \<Longrightarrow> q' = q @ [cur..cur' - 1] \<and> cur \<le> cur'"
proof (induction conc endB q cur rule: fill_queue.induct)
  case (1 conc endB queue cur)
  show ?case
  proof (cases "int (length queue) < conc \<and> cur \<le> endB")
    case True
    with 1 have "q' = (queue @ [cur]) @ [cur + 1..cur' - 1] \<and> cur + 1 \<le> cur'"
      by (simp add: fill_queue.simps[of conc endB queue cur])
    then show ?thesis by (simp add: upto_rec1[of cur "cur' - 1"])
  next
    case False
    with 1(2) show ?thesis by (simp add: fill_queue.simps[of conc endB queue cur])
  qed
qed

lemma upto_eq_Cons_D: "[lo..hi] = n # rest \<Longrightarrow> n = lo \<and> rest = [lo + 1..hi] \<and> lo \<le> hi"
  by (cases "lo \<le> hi") (auto simp: upto_rec1)

lemma fill_queue_inv:
  assumes "fill_queue conc endB [lo..cur - 1] cur = (q', cur')" and "lo \<le> cur"
  shows "q' = [lo..cur' - 1] \<and> cur \<le> cur'"
proof -
  from fill_queue_shape[OF assms(1)]
  have q: "q' = [lo..cur - 1] @ [cur..cur' - 1]" and le: "cur \<le> cur'"
    by auto
  have "[lo..cur' - 1] = [lo..cur - 1] @ [cur..cur' - 1]"
  proof (cases "cur = cur'")
    case True
    then show ?thesis by simp
  next
    case False
    with le assms(2) show ?thesis
      using upto_split1[of lo cur "cur' - 1"] by simp
  qed
  with q le show ?thesis by simp
qed

lemma iteration_inv:
  assumes "loop_inv st"
  shows "case iteration ix rn st of
           Continue st' \<Rightarrow> loop_inv st'
         | Return res \<Rightarrow> (\<exists>lo. ordered_upto lo (trace (snd res)))
         | Hang \<Rightarrow> True"
proof -
  from assms obtain lo where lo: "lo \<le> currentBlock st" "fetchQueue st = [lo..currentBlock st - 1]"
    "ordered_upto lo (trace st)"
    unfolding loop_inv_def by blast
  obtain q' cur' where fq:
    "fill_queue (run_concurrency rn) (run_endBlock rn) (fetchQueue st) (currentBlock st) = (q', cur')"
    by (cases "fill_queue (run_concurrency rn) (run_endBlock rn) (fetchQueue st) (currentBlock st)")
  from fill_queue_inv[of _ _ lo "currentBlock st" q' cur'] fq lo
  have q': "q' = [lo..cur' - 1]" and le: "currentBlock st \<le> cur'" by auto
  show ?thesis
  proof (cases q')
    case Nil
    with q' have "cur' \<le> lo" by (cases "lo \<le> cur' - 1") (auto simp: upto_rec1)
    with le lo(1) have "cur' = lo" by simp
    then have "loop_inv (st\<lparr>currentBlock := cur', fetchQueue := []\<rparr>)"
      unfolding loop_inv_def using lo(3) by (auto intro!: exI[of _ lo])
    with fq Nil show ?thesis by (simp add: iteration_def)
  next
    case (Cons n rest)
    with q' upto_eq_Cons_D[of lo "cur' - 1" n rest]
    have n: "n = lo" and rest: "rest = [lo + 1..cur' - 1]" and lt: "lo + 1 \<le> cur'" by auto
    let ?st = "st\<lparr>currentBlock := cur', fetchQueue := rest\<rparr>"
    have up1: "ordered_upto (lo + 1) (trace st)"
      using lo(3) unfolding ordered_upto_def by force
    show ?thesis
    proof (cases "fetchBlockData (idx_api ix) n")
      case None
      with fq Cons show ?thesis by (simp add: iteration_def)
    next
      case (Some fr)
      show ?thesis
      proof (cases fr)
        case (Inl e)
        with Some fq Cons lo(3) show ?thesis by (auto simp add: iteration_def)
      next
        case (Inr d)
        show ?thesis
        proof (cases d)
          case None
          have "loop_inv ?st"
            unfolding loop_inv_def using up1 rest lt by (auto intro!: exI[of _ "lo + 1"])
          with None Inr Some fq Cons show ?thesis by (simp add: iteration_def)
        next
          case (Some fetched)
          with Inr \<open>fetchBlockData (idx_api ix) n = Some fr\<close>
          have bn: "blockNum fetched = lo"
            using fetchBlockData_blockNum[of "idx_api ix" n fetched] n by simp
          obtain r st' where pb: "process_block ix rn ?st fetched = (r, st')"
            by (cases "process_block ix rn ?st fetched")
          from process_block_trace[OF pb] bn have ext: "extends_at lo ?st st'" by simp
          have "ordered_upto lo (trace ?st)" using lo(3) by simp
          from ordered_upto_extend[OF this ext] have up: "ordered_upto (lo + 1) (trace st')" .
          from ext have "currentBlock st' = cur'" "fetchQueue st' = rest"
            unfolding extends_at_def by auto
          with up rest lt have "loop_inv st'"
            unfolding loop_inv_def by (auto intro!: exI[of _ "lo + 1"])
          with up pb Some Inr \<open>fetchBlockData (idx_api ix) n = Some fr\<close> fq Cons show ?thesis
            by (cases r) (auto simp add: iteration_def)
        qed
      qed
    qed
  qed
qed

lemma state_after_inv:
  "loop_inv st \<Longrightarrow> state_after ix rn k st = Some st' \<Longrightarrow> loop_inv st'"
proof (induction k arbitrary: st)
  case 0
  then show ?case by simp
next
  case (Suc k)
  from Suc.prems(2) obtain st1 where it: "iteration ix rn st = Continue st1"
    and rest: "state_after ix rn k st1 = Some st'"
    by (auto split: if_splits iteration_result.splits)
  from iteration_inv[OF Suc.prems(1), of ix rn] it have "loop_inv st1" by simp
  from Suc.IH[OF this rest] show ?case .
qed

lemma index_loop_inv:
  assumes "index_loop ix rn st = Some res"
  shows "loop_inv st \<longrightarrow> (\<exists>lo. ordered_upto lo (trace (snd res)))"
proof (rule index_loop.raw_induct
    [where P = "\<lambda>ix rn st res. loop_inv st \<longrightarrow> (\<exists>lo. ordered_upto lo (trace (snd res)))",
     OF _ assms])
  fix f ix rn st res
  assume IH: "\<And>ix rn st res. f ix rn st = Some res \<Longrightarrow>
      loop_inv st \<longrightarrow> (\<exists>lo. ordered_upto lo (trace (snd res)))"
    and step: "(if currentBlock st \<le> run_endBlock rn
      then (case iteration ix rn st of
              Continue st' \<Rightarrow> f ix rn st'
            | Return r \<Rightarrow> Some r
            | Hang \<Rightarrow> None)
      else Some (Inr (), st)) = Some res"
  show "loop_inv st \<longrightarrow> (\<exists>lo. ordered_upto lo (trace (snd res)))"
  proof
    assume inv: "loop_inv st"
    show "\<exists>lo. ordered_upto lo (trace (snd res))"
    proof (cases "currentBlock st \<le> run_endBlock rn")
      case False
      with step have "res = (Inr (), st)" by simp
      with inv show ?thesis unfolding loop_inv_def by auto
    next
      case True
      from iteration_inv[OF inv, of ix rn] True step IH show ?thesis
        by (cases "iteration ix rn st") auto
    qed
  qed
qed

lemma initial_state_inv: "loop_inv (initial_state ix options)"
  unfolding loop_inv_def initial_state_def ordered_upto_def
  by (auto simp: Let_def)

text \<open>
  C1: in every run, whatever the concurrency, the calls to the store and to the callback
  are made in the order of the heights: the calls for a height all come before the calls
  for any greater height, and the blocks are inserted at strictly increasing heights. A
  fetch is awaited at the head of the queue, in the order of issue, so the order in which
  the fetches settle has no part in it. The statement holds of the calls made up to any
  test of the loop, and of the calls made by a run that returns or throws.
\<close>

theorem persistence_in_height_order:
  "(state_after ix (resolve_run ix options) k (initial_state ix options) = Some st \<longrightarrow>
      sorted (map fst (trace st)) \<and> sorted_wrt (<) (inserted_blocks (trace st))) \<and>
   (index ix options = Some (r, st') \<longrightarrow>
      sorted (map fst (trace st')) \<and> sorted_wrt (<) (inserted_blocks (trace st')))"
proof (intro conjI impI)
  assume a: "state_after ix (resolve_run ix options) k (initial_state ix options) = Some st"
  from state_after_inv[OF initial_state_inv a]
  show "sorted (map fst (trace st))" "sorted_wrt (<) (inserted_blocks (trace st))"
    unfolding loop_inv_def ordered_upto_def by auto
next
  assume a: "index ix options = Some (r, st')"
  from index_loop_inv[of ix "resolve_run ix options" "initial_state ix options" "(r, st')"]
    a initial_state_inv
  show "sorted (map fst (trace st'))" "sorted_wrt (<) (inserted_blocks (trace st'))"
    unfolding index_def ordered_upto_def by auto
qed

text \<open>
  An instance of C1: the heights 0 to 2 with two fetches in flight. After one pass the
  block 0 is inserted; the run returns with the blocks 0 and 1 inserted, in that order.
\<close>

theorem persistence_in_height_order_witness:
  "\<exists>st1 st.
      state_after (sample_indexer (\<lambda>h k. Inr full_block) (sample_db []))
        (resolve_run (sample_indexer (\<lambda>h k. Inr full_block) (sample_db [])) (sample_options 0 2 2)) 1
        (initial_state (sample_indexer (\<lambda>h k. Inr full_block) (sample_db [])) (sample_options 0 2 2))
        = Some st1 \<and>
      inserted_blocks (trace st1) = [0] \<and> sorted (map fst (trace st1)) \<and>
      index (sample_indexer (\<lambda>h k. Inr full_block) (sample_db [])) (sample_options 0 2 2)
        = Some (Inr (), st) \<and>
      inserted_blocks (trace st) = [0, 1] \<and>
      sorted (map fst (trace st)) \<and> sorted_wrt (<) (inserted_blocks (trace st))"
proof -
  let ?ix = "sample_indexer (\<lambda>h k. Inr full_block) (sample_db [])"
  let ?op = "sample_options 0 2 2"
  obtain st where st: "index ?ix ?op = Some (Inr (), st)" and b: "inserted_blocks (trace st) = [0, 1]"
    by (simp add: sample_defs model_defs index_loop.simps retry_loop.simps Let_def)
  obtain st1 where st1: "state_after ?ix (resolve_run ?ix ?op) 1 (initial_state ?ix ?op) = Some st1"
    and b1: "inserted_blocks (trace st1) = [0]"
    by (simp add: sample_defs model_defs retry_loop.simps Let_def)
  from persistence_in_height_order[of ?ix ?op 1 st1 "Inr ()" st] st st1 b b1
  show ?thesis by simp
qed

section \<open>A block that fails\<close>

lemma index_loop_state_after:
  "state_after ix rn k st = Some st' \<Longrightarrow> index_loop ix rn st = index_loop ix rn st'"
proof (induction k arbitrary: st)
  case 0
  then show ?case by simp
next
  case (Suc k)
  from Suc.prems obtain st1 where c: "currentBlock st \<le> run_endBlock rn"
    and it: "iteration ix rn st = Continue st1"
    and rest: "state_after ix rn k st1 = Some st'"
    by (auto split: if_splits iteration_result.splits)
  from c it have "index_loop ix rn st = index_loop ix rn st1"
    by (subst index_loop.simps) simp
  with Suc.IH[OF rest] show ?case by simp
qed

text \<open>
  C3, as the specification states it: after an error at a height the progress record is
  written at the height below and the error of the height is thrown. The source writes
  the record in its \<^verbatim>\<open>catch\<close> with an awaited call that it does not guard: when the
  store rejects that write as well, no record is written and the caller gets the error
  of the write. Below, the inserts of height 1 are rejected as duplicates and the store
  rejects the progress write: the run throws the error of the progress write.
\<close>

theorem rejected_pin_hides_error:
  "map_sum id (\<lambda>(b, xs, es). insert_result failing_store b xs es)
     (normalize (sample_indexer (\<lambda>h k. Inr full_block) failing_store) (fetched_at 1 full_block))
     = Inr (Some duplicate_key_error) \<and>
   store_down_error \<noteq> duplicate_key_error \<and>
   map_option (\<lambda>(r, st). (r, map fst (trace st)))
     (index (sample_indexer (\<lambda>h k. Inr full_block) failing_store) (sample_options 1 2 1))
     = Some (Inl store_down_error, [1, 1, 1, 1]) \<and>
   map_option (\<lambda>(r, st). case snd (last (trace st)) of
                            UpdateScanProgress p \<Rightarrow>
                              Some (lastIndexedBlock p, updateScanProgress_result failing_store p)
                          | _ \<Rightarrow> None)
     (index (sample_indexer (\<lambda>h k. Inr full_block) failing_store) (sample_options 1 2 1))
     = Some (Some (0, Some store_down_error))"
  by (simp add: sample_defs model_defs index_loop.simps retry_loop.simps Let_def)

text \<open>
  C3, amended: when the run has come to a pass whose block, at height \<open>n\<close>, fails to
  normalise, or whose inserts the store rejects, and no fetch queued behind it rejects,
  the write of the progress record is issued with \<open>lastIndexedBlock = n - 1\<close>, with the
  counters as they were before the block and with the completion flag false. This write
  is the last call of the run: \<^verbatim>\<open>index\<close> throws, and no further height is processed.
  The error thrown is the error of the height when the store acknowledges the write, and
  the error of the write when the store rejects it.
\<close>

theorem failure_pins_progress:
  assumes run: "rn = resolve_run ix options"
    and reach: "state_after ix rn k (initial_state ix options) = Some st"
    and loop: "currentBlock st \<le> run_endBlock rn"
    and fill: "fill_queue (run_concurrency rn) (run_endBlock rn) (fetchQueue st) (currentBlock st)
                 = (n # rest, cur)"
    and fetch: "fetchBlockData (idx_api ix) n = Some (Inr (Some fetched))"
    and queued: "\<forall>m \<in> set rest. \<forall>err. fetchBlockData (idx_api ix) m \<noteq> Some (Inl err)"
    and fail: "normalize ix fetched = Inl e \<or>
               (\<exists>b xs es. normalize ix fetched = Inr (b, xs, es) \<and>
                           insert_result (idx_db ix) b xs es = Some e)"
  shows "\<exists>e' st'.
           index ix options = Some (Inl e', st') \<and>
           trace st' =
             trace st @
             map (Pair n) (case normalize ix fetched of
                             Inl err \<Rightarrow> []
                           | Inr (b, xs, es) \<Rightarrow> insert_calls b xs es) @
             [(n, UpdateScanProgress
                    \<lparr>chainId = idx_chainId ix, chainName = run_chainName rn,
                     lastIndexedBlock = n - 1,
                     blocksIndexed = st_blocksIndexed st,
                     extrinsicsIndexed = st_extrinsicsIndexed st,
                     eventsIndexed = st_eventsIndexed st,
                     isComplete = False, targetEndBlock = Some (run_endBlock rn)\<rparr>)] \<and>
           (case updateScanProgress_result (idx_db ix)
                   \<lparr>chainId = idx_chainId ix, chainName = run_chainName rn,
                    lastIndexedBlock = n - 1,
                    blocksIndexed = st_blocksIndexed st,
                    extrinsicsIndexed = st_extrinsicsIndexed st,
                    eventsIndexed = st_eventsIndexed st,
                    isComplete = False, targetEndBlock = Some (run_endBlock rn)\<rparr> of
              None \<Rightarrow> e' = e
            | Some e2 \<Rightarrow> e' = e2)"
proof -
  have bn: "blockNum fetched = n" using fetchBlockData_blockNum[OF fetch] .
  have ix: "index ix options = index_loop ix rn st"
    using index_loop_state_after[OF reach] by (simp add: index_def run)
  from fail show ?thesis
  proof
    assume "normalize ix fetched = Inl e"
    with loop fill fetch bn show ?thesis
      unfolding ix
      by (subst index_loop.simps)
         (simp add: iteration_def process_block_def try_block_def catch_block_def emit_def
            progress_document_def Let_def split: option.splits)
  next
    assume "\<exists>b xs es. normalize ix fetched = Inr (b, xs, es) \<and>
                           insert_result (idx_db ix) b xs es = Some e"
    then obtain b xs es where "normalize ix fetched = Inr (b, xs, es)"
      "insert_result (idx_db ix) b xs es = Some e" by blast
    with loop fill fetch bn show ?thesis
      unfolding ix
      by (subst index_loop.simps)
         (simp add: iteration_def process_block_def try_block_def catch_block_def emit_def
            progress_document_def Let_def split: option.splits)
  qed
qed

text \<open>
  Two instances of C3. A block at height 1 whose event data cannot be decoded, after a
  progress record at height 0: the only call of the run writes the record at 0 with the
  counters of that record. A store that rejects the inserts of the block at height 1,
  after the block at height 0 has been persisted: the three inserts of height 1 are
  issued, then the record is written at 0 with the counters after the block at height 0.
\<close>

theorem failure_pins_progress_witness:
  "(\<exists>st'. index (sample_indexer (\<lambda>h k. Inr broken_block) (sample_db [progress_at 1 0])) default_options
            = Some (Inl decode_error, st') \<and>
          trace st' = [(1, UpdateScanProgress
                            \<lparr>chainId = 1, chainName = ''dev'', lastIndexedBlock = 0,
                             blocksIndexed = 6, extrinsicsIndexed = 0, eventsIndexed = 0,
                             isComplete = False, targetEndBlock = Some 2\<rparr>)]) \<and>
   (\<exists>st'. index (sample_indexer (\<lambda>h k. Inr full_block) rejecting_db) (sample_options 0 2 1)
            = Some (Inl duplicate_key_error, st') \<and>
          map fst (trace st') = [0, 0, 0, 0, 0, 1, 1, 1, 1] \<and>
          last (trace st') = (1, UpdateScanProgress
                            \<lparr>chainId = 1, chainName = ''dev'', lastIndexedBlock = 0,
                             blocksIndexed = 1, extrinsicsIndexed = 1, eventsIndexed = 1,
                             isComplete = False, targetEndBlock = Some 2\<rparr>))"
proof -
  let ?ix = "sample_indexer (\<lambda>h k. Inr broken_block) (sample_db [progress_at 1 0])"
  let ?rn = "resolve_run ?ix default_options"
  let ?st = "initial_state ?ix default_options"
  let ?f = "fetched_at 1 broken_block"
  have a0: "state_after ?ix ?rn 0 ?st = Some ?st" by simp
  have a1: "currentBlock ?st \<le> run_endBlock ?rn" by (simp add: sample_defs model_defs)
  have a2: "fill_queue (run_concurrency ?rn) (run_endBlock ?rn) (fetchQueue ?st) (currentBlock ?st)
              = (1 # [2], 3)" by (simp add: sample_defs model_defs)
  have a3: "fetchBlockData (idx_api ?ix) 1 = Some (Inr (Some ?f))"
    by (simp add: sample_defs model_defs retry_loop.simps)
  have a4: "normalize ?ix ?f = Inl decode_error" by (simp add: sample_defs model_defs)
  have a5: "\<forall>m \<in> set [2]. \<forall>err. fetchBlockData (idx_api ?ix) m \<noteq> Some (Inl err)"
    by (simp add: sample_defs model_defs retry_loop.simps)
  from failure_pins_progress[OF refl a0 a1 a2 a3 a5 disjI1[OF a4]]
  have A: "\<exists>st'. index ?ix default_options = Some (Inl decode_error, st') \<and>
          trace st' = [(1, UpdateScanProgress
                            \<lparr>chainId = 1, chainName = ''dev'', lastIndexedBlock = 0,
                             blocksIndexed = 6, extrinsicsIndexed = 0, eventsIndexed = 0,
                             isComplete = False, targetEndBlock = Some 2\<rparr>)]"
    by (simp add: a4) (auto simp add: sample_defs model_defs)
  let ?iy = "sample_indexer (\<lambda>h k. Inr full_block) rejecting_db"
  let ?op = "sample_options 0 2 1"
  let ?rm = "resolve_run ?iy ?op"
  let ?g = "fetched_at 1 full_block"
  obtain su where b0: "state_after ?iy ?rm 1 (initial_state ?iy ?op) = Some su"
    and su: "currentBlock su = 1" "fetchQueue su = []" "st_blocksIndexed su = 1"
      "st_extrinsicsIndexed su = 1" "st_eventsIndexed su = 1" "map fst (trace su) = [0, 0, 0, 0, 0]"
    by (simp add: sample_defs model_defs retry_loop.simps Let_def)
  have rm: "run_endBlock ?rm = 2" "run_concurrency ?rm = 1" "run_chainName ?rm = ''dev''"
    by (simp_all add: sample_defs resolve_run_def)
  have b1: "currentBlock su \<le> run_endBlock ?rm" by (simp add: su rm)
  have b2: "fill_queue (run_concurrency ?rm) (run_endBlock ?rm) (fetchQueue su) (currentBlock su)
              = (1 # [], 2)" by (simp add: su rm fill_queue.simps)
  have b3: "fetchBlockData (idx_api ?iy) 1 = Some (Inr (Some ?g))"
    by (simp add: sample_defs model_defs retry_loop.simps)
  obtain b xs es where b4: "normalize ?iy ?g = Inr (b, xs, es)"
    and b5: "insert_result (idx_db ?iy) b xs es = Some duplicate_key_error"
    and b6: "xs \<noteq> []" "es \<noteq> []"
    by (simp add: sample_defs model_defs)
  from b4 b5 have b7: "normalize ?iy ?g = Inl duplicate_key_error \<or>
               (\<exists>b xs es. normalize ?iy ?g = Inr (b, xs, es) \<and>
                           insert_result (idx_db ?iy) b xs es = Some duplicate_key_error)" by blast
  have b8: "\<forall>m \<in> set []. \<forall>err. fetchBlockData (idx_api ?iy) m \<noteq> Some (Inl err)"
    by simp
  from failure_pins_progress[OF refl b0 b1 b2 b3 b8 b7]
  have B: "\<exists>st'. index ?iy ?op = Some (Inl duplicate_key_error, st') \<and>
          map fst (trace st') = [0, 0, 0, 0, 0, 1, 1, 1, 1] \<and>
          last (trace st') = (1, UpdateScanProgress
                            \<lparr>chainId = 1, chainName = ''dev'', lastIndexedBlock = 0,
                             blocksIndexed = 1, extrinsicsIndexed = 1, eventsIndexed = 1,
                             isComplete = False, targetEndBlock = Some 2\<rparr>)"
    by (simp add: b4 b6 insert_calls_def su rm) (auto simp add: sample_defs su)
  from A B show ?thesis by blast
qed

section \<open>A pruned height\<close>

text \<open>
  A height whose fetch ends in a pruned-state error adds no call and changes no counter,
  and the pass does not fail: it goes on to the test of the loop with the height taken
  off the queue.
\<close>

lemma pruned_height_skipped:
  assumes "fill_queue (run_concurrency rn) (run_endBlock rn) (fetchQueue st) (currentBlock st)
             = (n # rest, cur)"
    and "fetchBlockData (idx_api ix) n = Some (Inr None)"
  shows "iteration ix rn st = Continue (st\<lparr>currentBlock := cur, fetchQueue := rest\<rparr>)"
  using assms by (simp add: iteration_def)

text \<open>
  C4, on an input where the claim fails: the heights 0 to 1 with two fetches in flight,
  height 0 pruned. Both heights are issued in the first pass and height 0 is skipped.
  The test of the loop looks only at the next height to issue, which is past the end, so
  the run ends: it has made no call, and height 1 is left in the queue and is never
  processed, though its fetch delivers a block.
\<close>

theorem pruned_skip_ends_run:
  "fetchBlockData
     (idx_api (sample_indexer (\<lambda>h k. if h = 0 then Inl pruned_error else Inr full_block) (sample_db []))) 0
     = Some (Inr None) \<and>
   map_option (map_sum id (map_option blockNum))
     (fetchBlockData
        (idx_api (sample_indexer (\<lambda>h k. if h = 0 then Inl pruned_error else Inr full_block) (sample_db [])))
        1)
     = Some (Inr (Some 1)) \<and>
   map_option (\<lambda>(r, st). (r, trace st, currentBlock st, fetchQueue st))
     (index (sample_indexer (\<lambda>h k. if h = 0 then Inl pruned_error else Inr full_block) (sample_db []))
        (sample_options 0 1 2))
     = Some (Inr (), [], 2, [1])"
  by (simp add: sample_defs model_defs index_loop.simps retry_loop.simps Let_def)

section \<open>The concurrency\<close>

lemma fill_queue_bound:
  "fill_queue conc endB q cur = (q', cur') \<Longrightarrow> cur' \<le> max cur (endB + 1)"
proof (induction conc endB q cur rule: fill_queue.induct)
  case (1 conc endB queue cur)
  show ?case
  proof (cases "int (length queue) < conc \<and> cur \<le> endB")
    case True
    with 1 have "cur' \<le> max (cur + 1) (endB + 1)"
      by (simp add: fill_queue.simps[of conc endB queue cur])
    with True show ?thesis by simp
  next
    case False
    with 1(2) show ?thesis by (simp add: fill_queue.simps[of conc endB queue cur])
  qed
qed

lemma fill_queue_nonempty:
  assumes "1 \<le> conc" and "cur \<le> endB"
  shows "fst (fill_queue conc endB q cur) \<noteq> []"
proof (cases q)
  case Nil
  obtain q' cur' where f: "fill_queue conc endB [cur] (cur + 1) = (q', cur')"
    by (cases "fill_queue conc endB [cur] (cur + 1)")
  from fill_queue_shape[OF f] have "q' \<noteq> []" by simp
  moreover from assms Nil f have "fill_queue conc endB q cur = (q', cur')"
    by (simp add: fill_queue.simps[of conc endB "[]" cur])
  ultimately show ?thesis by simp
next
  case (Cons a list)
  obtain q' cur' where f: "fill_queue conc endB q cur = (q', cur')"
    by (cases "fill_queue conc endB q cur")
  from fill_queue_shape[OF f] Cons have "q' \<noteq> []" by simp
  with f show ?thesis by simp
qed

lemma index_loop_terminates:
  assumes conc: "1 \<le> run_concurrency rn"
    and fetches: "\<forall>n. fetchBlockData (idx_api ix) n \<noteq> None"
  shows "\<exists>res. index_loop ix rn st = Some res"
proof (induction "nat (run_endBlock rn + 1 - currentBlock st) + length (fetchQueue st)"
        arbitrary: st rule: less_induct)
  case less
  show ?case
  proof (cases "currentBlock st \<le> run_endBlock rn")
    case False
    then show ?thesis by (subst index_loop.simps) simp
  next
    case True
    obtain q' cur' where fq:
      "fill_queue (run_concurrency rn) (run_endBlock rn) (fetchQueue st) (currentBlock st) = (q', cur')"
      by (cases "fill_queue (run_concurrency rn) (run_endBlock rn) (fetchQueue st) (currentBlock st)")
    from fill_queue_nonempty[OF conc True, of "fetchQueue st"] fq
    obtain n rest where q': "q' = n # rest" by (cases q') auto
    from fill_queue_shape[OF fq] have shape: "q' = fetchQueue st @ [currentBlock st..cur' - 1]"
      and le: "currentBlock st \<le> cur'" by auto
    from fill_queue_bound[OF fq] True have bound: "cur' \<le> run_endBlock rn + 1" by simp
    have "length q' = length (fetchQueue st) + nat (cur' - currentBlock st)"
      by (subst shape) simp
    with q' have len: "length rest + 1 = length (fetchQueue st) + nat (cur' - currentBlock st)"
      by simp
    let ?st = "st\<lparr>currentBlock := cur', fetchQueue := rest\<rparr>"
    have dec: "nat (run_endBlock rn + 1 - cur') + length rest
                 < nat (run_endBlock rn + 1 - currentBlock st) + length (fetchQueue st)"
      using len le bound by linarith
    from fetches obtain fr where fr: "fetchBlockData (idx_api ix) n = Some fr" by auto
    show ?thesis
    proof (cases fr)
      case (Inl e)
      with True fq q' fr show ?thesis
        by (subst index_loop.simps) (simp add: iteration_def)
    next
      case (Inr d)
      show ?thesis
      proof (cases d)
        case None
        from less[of ?st] dec obtain res where "index_loop ix rn ?st = Some res" by auto
        with None Inr True fq q' fr show ?thesis
          by (subst index_loop.simps) (simp add: iteration_def)
      next
        case (Some fetched)
        obtain r st' where pb: "process_block ix rn ?st fetched = (r, st')"
          by (cases "process_block ix rn ?st fetched")
        from process_block_trace[OF pb]
        have same: "currentBlock st' = cur'" "fetchQueue st' = rest"
          unfolding extends_at_def by auto
        from less[of st'] dec same obtain res where "index_loop ix rn st' = Some res" by auto
        with pb Some Inr True fq q' fr show ?thesis
          by (subst index_loop.simps) (cases r; simp add: iteration_def)
      qed
    qed
  qed
qed

lemma index_loop_spins:
  assumes "index_loop ix rn st = Some res"
  shows "\<not> (run_concurrency rn \<le> 0 \<and> fetchQueue st = [] \<and> currentBlock st \<le> run_endBlock rn)"
proof (rule index_loop.raw_induct
        [where P = "\<lambda>ix rn st res.
            \<not> (run_concurrency rn \<le> 0 \<and> fetchQueue st = [] \<and> currentBlock st \<le> run_endBlock rn)",
         OF _ assms])
  fix f ix rn st res
  assume IH: "\<And>ix rn st res. f ix rn st = Some res \<Longrightarrow>
      \<not> (run_concurrency rn \<le> 0 \<and> fetchQueue st = [] \<and> currentBlock st \<le> run_endBlock rn)"
    and step: "(if currentBlock st \<le> run_endBlock rn
      then (case iteration ix rn st of
              Continue st' \<Rightarrow> f ix rn st'
            | Return r \<Rightarrow> Some r
            | Hang \<Rightarrow> None)
      else Some (Inr (), st)) = Some res"
  show "\<not> (run_concurrency rn \<le> 0 \<and> fetchQueue st = [] \<and> currentBlock st \<le> run_endBlock rn)"
  proof
    assume c: "run_concurrency rn \<le> 0 \<and> fetchQueue st = [] \<and> currentBlock st \<le> run_endBlock rn"
    then have "iteration ix rn st = Continue (st\<lparr>currentBlock := currentBlock st, fetchQueue := []\<rparr>)"
      by (simp add: iteration_def fill_queue.simps[of _ _ "[]"])
    with step c have "f ix rn (st\<lparr>currentBlock := currentBlock st, fetchQueue := []\<rparr>) = Some res"
      by simp
    from IH[OF this] c show False by simp
  qed
qed

text \<open>
  C6, as the specification states it: a concurrency of 0 or less is normalised to at
  least 1, and the run over a non-empty range ends. The source uses the value as it is
  given: with concurrency 0 over the range from 0 to 0 no fetch is ever issued, the queue
  stays empty and the loop never ends.
\<close>

theorem nonpositive_concurrency_never_returns:
  "run_concurrency (resolve_run (sample_indexer (\<lambda>h k. Inr full_block) (sample_db []))
      (sample_options 0 0 0)) = 0 \<and>
   index (sample_indexer (\<lambda>h k. Inr full_block) (sample_db [])) (sample_options 0 0 0) = None"
proof -
  let ?ix = "sample_indexer (\<lambda>h k. Inr full_block) (sample_db [])"
  let ?op = "sample_options 0 0 0"
  have c: "run_concurrency (resolve_run ?ix ?op) \<le> 0 \<and> fetchQueue (initial_state ?ix ?op) = [] \<and>
     currentBlock (initial_state ?ix ?op) \<le> run_endBlock (resolve_run ?ix ?op)"
    by (simp add: sample_defs model_defs)
  have "index ?ix ?op = None"
  proof (cases "index ?ix ?op")
    case None
    then show ?thesis .
  next
    case (Some res)
    with index_loop_spins[of ?ix "resolve_run ?ix ?op" "initial_state ?ix ?op" res] c
    show ?thesis by (simp add: index_def)
  qed
  then show ?thesis by (simp add: sample_defs resolve_run_def)
qed

text \<open>
  C6, amended: the concurrency is used as the caller gives it, with no normalisation.
  For every concurrency of at least 1 and every range in which each fetch settles and no
  fetch queued behind the head rejects (no fetch rejects, or the concurrency is 1), every
  pass of the loop has a fetch to await, and the run ends, by returning or by throwing.
\<close>

theorem positive_concurrency_terminates:
  assumes "1 \<le> run_concurrency (resolve_run ix options)"
    and "\<forall>n. fetchBlockData (idx_api ix) n \<noteq> None"
    and "run_concurrency (resolve_run ix options) = 1 \<or>
         (\<forall>n err. fetchBlockData (idx_api ix) n \<noteq> Some (Inl err))"
  shows "(\<forall>c. concurrency options = Some c \<longrightarrow> run_concurrency (resolve_run ix options) = c) \<and>
         (\<forall>st. currentBlock st \<le> run_endBlock (resolve_run ix options) \<longrightarrow>
               fst (fill_queue (run_concurrency (resolve_run ix options))
                      (run_endBlock (resolve_run ix options)) (fetchQueue st) (currentBlock st)) \<noteq> []) \<and>
         (\<exists>res. index ix options = Some res)"
proof (intro conjI allI impI)
  fix c assume "concurrency options = Some c"
  then show "run_concurrency (resolve_run ix options) = c" by (simp add: resolve_run_def)
next
  fix st assume "currentBlock st \<le> run_endBlock (resolve_run ix options)"
  from fill_queue_nonempty[OF assms(1) this]
  show "fst (fill_queue (run_concurrency (resolve_run ix options))
                      (run_endBlock (resolve_run ix options)) (fetchQueue st) (currentBlock st)) \<noteq> []" .
next
  from index_loop_terminates[OF assms(1,2)] show "\<exists>res. index ix options = Some res"
    by (simp add: index_def)
qed

text \<open>
  Two instances of C6: the heights 0 to 2 with concurrency 2, every fetch delivering a
  block; and the heights 0 to 2 with concurrency 1, the fetch of height 1 rejecting with
  an error that is neither network-transient nor pruned-state.
\<close>

theorem positive_concurrency_terminates_witness:
  "1 \<le> run_concurrency (resolve_run (sample_indexer (\<lambda>h k. Inr full_block) (sample_db []))
          (sample_options 0 2 2)) \<and>
   (\<forall>n. fetchBlockData (idx_api (sample_indexer (\<lambda>h k. Inr full_block) (sample_db []))) n \<noteq> None) \<and>
   (\<forall>n err. fetchBlockData (idx_api (sample_indexer (\<lambda>h k. Inr full_block) (sample_db []))) n
              \<noteq> Some (Inl err)) \<and>
   run_concurrency (resolve_run (sample_indexer (\<lambda>h k. Inr full_block) (sample_db []))
          (sample_options 0 2 2)) = 2 \<and>
   (\<exists>res. index (sample_indexer (\<lambda>h k. Inr full_block) (sample_db [])) (sample_options 0 2 2)
            = Some res) \<and>
   run_concurrency (resolve_run
      (sample_indexer (\<lambda>h k. if h = 1 then Inl invalid_params_error else Inr full_block) (sample_db []))
      (sample_options 0 2 1)) = 1 \<and>
   fetchBlockData
      (idx_api (sample_indexer (\<lambda>h k. if h = 1 then Inl invalid_params_error else Inr full_block)
         (sample_db []))) 1 = Some (Inl invalid_params_error) \<and>
   (\<exists>res. index
      (sample_indexer (\<lambda>h k. if h = 1 then Inl invalid_params_error else Inr full_block) (sample_db []))
      (sample_options 0 2 1) = Some res)"
proof -
  let ?ix = "sample_indexer (\<lambda>h k. Inr full_block) (sample_db [])"
  let ?op = "sample_options 0 2 2"
  have a1: "1 \<le> run_concurrency (resolve_run ?ix ?op)" by (simp add: sample_defs model_defs)
  have a2: "\<forall>n. fetchBlockData (idx_api ?ix) n \<noteq> None"
    by (simp add: sample_defs model_defs retry_loop.simps)
  have a3: "\<forall>n err. fetchBlockData (idx_api ?ix) n \<noteq> Some (Inl err)"
    by (simp add: sample_defs model_defs retry_loop.simps)
  have a4: "run_concurrency (resolve_run ?ix ?op) = 2" by (simp add: sample_defs model_defs)
  from positive_concurrency_terminates[OF a1 a2 disjI2[OF a3]]
  have A: "\<exists>res. index ?ix ?op = Some res" by blast
  let ?iy = "sample_indexer (\<lambda>h k. if h = 1 then Inl invalid_params_error else Inr full_block) (sample_db [])"
  let ?oq = "sample_options 0 2 1"
  have b1: "run_concurrency (resolve_run ?iy ?oq) = 1" by (simp add: sample_defs model_defs)
  have b1': "1 \<le> run_concurrency (resolve_run ?iy ?oq)" by (simp add: b1)
  have b2: "\<forall>n. fetchBlockData (idx_api ?iy) n \<noteq> None"
    by (simp add: sample_defs model_defs retry_loop.simps)
  have b3: "fetchBlockData (idx_api ?iy) 1 = Some (Inl invalid_params_error)"
    by (simp add: sample_defs model_defs retry_loop.simps)
  from positive_concurrency_terminates[OF b1' b2 disjI1[OF b1]]
  have B: "\<exists>res. index ?iy ?oq = Some res" by blast
  from a1 a2 a3 a4 A b1 b3 B show ?thesis by blast
qed

section \<open>The progress callback\<close>

lemma callbacks_append: "callbacks (xs @ ys) = callbacks xs @ callbacks ys"
  by (induction xs rule: callbacks.induct) auto

lemma callbacks_insert_calls: "callbacks (map (Pair n) (insert_calls b xs es)) = []"
  by (simp add: insert_calls_def)

lemma length_event_documents:
  "event_documents ix fetched i evs = Inr docs \<Longrightarrow> length docs = length evs"
  by (induction evs arbitrary: i docs) (auto split: sum.splits)

lemma length_extrinsic_documents:
  "length (extrinsic_documents ix fetched) = length (block_extrinsics (signedBlock fetched))"
  by (simp add: extrinsic_documents_def)

lemma callbacks_tagged_append:
  "callbacks_tagged (xs @ ys) \<longleftrightarrow> callbacks_tagged xs \<and> callbacks_tagged ys"
  by (auto simp: callbacks_tagged_def)

lemma callbacks_tagged_emit:
  "callbacks_tagged (trace (emit n es st)) \<longleftrightarrow>
     callbacks_tagged (trace st) \<and> callbacks_tagged (map (Pair n) es)"
  by (simp add: emit_def callbacks_tagged_append)

lemma callbacks_tagged_insert_calls: "callbacks_tagged (map (Pair n) (insert_calls b xs es))"
  by (auto simp: insert_calls_def callbacks_tagged_def)

lemma try_block_tagged:
  assumes "callbacks_tagged (trace st)"
  shows "callbacks_tagged (trace (snd (try_block ix rn st fetched)))"
  using assms
  unfolding try_block_def
  by (simp add: Let_def callbacks_tagged_emit callbacks_tagged_insert_calls
        split: sum.splits prod.splits option.splits)
     (simp add: callbacks_tagged_def emit_def)

lemma catch_block_tagged:
  assumes "callbacks_tagged (trace st)"
  shows "callbacks_tagged (trace (snd (catch_block ix rn n e st)))"
  using assms
  unfolding catch_block_def
  by (simp add: Let_def callbacks_tagged_emit split: option.splits)
     (simp add: callbacks_tagged_def)

lemma process_block_tagged:
  assumes "callbacks_tagged (trace st)"
  shows "callbacks_tagged (trace (snd (process_block ix rn st fetched)))"
proof (cases "try_block ix rn st fetched")
  case (Pair r st1)
  from try_block_tagged[OF assms, of ix rn fetched] Pair have t: "callbacks_tagged (trace st1)"
    by simp
  show ?thesis
  proof (cases r)
    case (Inl e)
    with Pair catch_block_tagged[OF t, of ix rn "blockNum fetched" e] show ?thesis
      by (simp add: process_block_def)
  next
    case (Inr u)
    with Pair t show ?thesis by (simp add: process_block_def)
  qed
qed

lemma iteration_tagged:
  assumes "callbacks_tagged (trace st)" and "iteration ix rn st = Continue st'"
  shows "callbacks_tagged (trace st')"
proof -
  obtain q cur where fq:
    "fill_queue (run_concurrency rn) (run_endBlock rn) (fetchQueue st) (currentBlock st) = (q, cur)"
    by (cases "fill_queue (run_concurrency rn) (run_endBlock rn) (fetchQueue st) (currentBlock st)")
  show ?thesis
  proof (cases q)
    case Nil
    with fq assms show ?thesis by (auto simp: iteration_def)
  next
    case (Cons n rest)
    let ?st = "st\<lparr>currentBlock := cur, fetchQueue := rest\<rparr>"
    have t: "callbacks_tagged (trace ?st)" using assms(1) by simp
    show ?thesis
    proof (cases "fetchBlockData (idx_api ix) n")
      case None
      with fq Cons assms(2) show ?thesis by (simp add: iteration_def)
    next
      case (Some fr)
      show ?thesis
      proof (cases fr)
        case (Inl e)
        with Some fq Cons assms(2) show ?thesis by (simp add: iteration_def)
      next
        case (Inr d)
        show ?thesis
        proof (cases d)
          case None
          with Inr Some fq Cons assms show ?thesis by (auto simp: iteration_def)
        next
          case (Some fetched)
          obtain r st2 where pb: "process_block ix rn ?st fetched = (r, st2)"
            by (cases "process_block ix rn ?st fetched")
          with process_block_tagged[OF t, of ix rn fetched] have "callbacks_tagged (trace st2)"
            by simp
          with pb Some Inr \<open>fetchBlockData (idx_api ix) n = Some fr\<close> fq Cons assms(2)
          show ?thesis by (cases r) (auto simp: iteration_def)
        qed
      qed
    qed
  qed
qed

lemma state_after_tagged:
  "callbacks_tagged (trace st) \<Longrightarrow> state_after ix rn k st = Some st' \<Longrightarrow>
   callbacks_tagged (trace st')"
proof (induction k arbitrary: st)
  case 0
  then show ?case by simp
next
  case (Suc k)
  from Suc.prems(2) obtain st1 where it: "iteration ix rn st = Continue st1"
    and rest: "state_after ix rn k st1 = Some st'"
    by (auto split: if_splits iteration_result.splits)
  from Suc.IH[OF iteration_tagged[OF Suc.prems(1) it] rest] show ?case .
qed

lemma callbacks_in_trace:
  "p \<in> set (callbacks tr) \<Longrightarrow> \<exists>t. (t, OnProgress p) \<in> set tr"
  by (induction tr rule: callbacks.induct) auto

lemma earlier_callbacks_lower:
  assumes reach: "state_after ix rn k (initial_state ix options) = Some st"
    and fill: "fill_queue (run_concurrency rn) (run_endBlock rn) (fetchQueue st) (currentBlock st)
                 = (n # rest, cur)"
    and p: "p \<in> set (callbacks (trace st))"
  shows "cb_lastIndexedBlock p < n"
proof -
  from state_after_inv[OF initial_state_inv reach] obtain lo where lo:
    "lo \<le> currentBlock st" "fetchQueue st = [lo..currentBlock st - 1]" "ordered_upto lo (trace st)"
    unfolding loop_inv_def by blast
  from fill_queue_inv[of _ _ lo "currentBlock st" "n # rest" cur] fill lo
  have "n # rest = [lo..cur - 1]" by simp
  with upto_eq_Cons_D[of lo "cur - 1" n rest] have n: "n = lo" by simp
  have tg: "callbacks_tagged (trace st)"
    using state_after_tagged[OF _ reach] by (simp add: initial_state_def callbacks_tagged_def Let_def)
  from callbacks_in_trace[OF p] obtain t where t: "(t, OnProgress p) \<in> set (trace st)" by blast
  with tg have "cb_lastIndexedBlock p = t" unfolding callbacks_tagged_def by force
  moreover from t lo(3) have "t < lo" unfolding ordered_upto_def by force
  ultimately show ?thesis using n by simp
qed

text \<open>
  C9, as the specification states it: the callback is called once for every height the
  run passes through, also for a height that is skipped as pruned. A skipped height
  leaves the pass at \<^verbatim>\<open>continue\<close>, before the callback: in the run over the one height
  0, pruned, with a callback given, the callback is never called.
\<close>

theorem skipped_height_no_callback:
  "fetchBlockData (idx_api (sample_indexer (\<lambda>h k. Inl pruned_error) (sample_db []))) 0
     = Some (Inr None) \<and>
   map_option (\<lambda>p. p \<lparr>cb_lastIndexedBlock = 0, cb_blocksIndexed = 0, cb_extrinsicsIndexed = 0,
                         cb_eventsIndexed = 0, cb_activeFetches = 0\<rparr>)
     (onProgress (sample_options 0 0 1)) = Some None \<and>
   map_option (\<lambda>(r, st). (r, callbacks (trace st)))
     (index (sample_indexer (\<lambda>h k. Inl pruned_error) (sample_db [])) (sample_options 0 0 1))
     = Some (Inr (), [])"
  by (simp add: sample_defs model_defs index_loop.simps retry_loop.simps Let_def)

text \<open>
  C9, amended: when a callback is given, it is called exactly once for every height that
  is processed to the end, with the height as the last indexed height, the counters
  after the block (one more block, and the transactions and events of the block added)
  and the number of fetches left in the queue; for a height that is skipped as pruned
  it is not called, and no other call is made. The calls of the earlier passes of the run
  were all for lower heights, so the one call of the pass is the only call for its height.
\<close>

theorem callback_once_per_processed_height:
  assumes run: "rn = resolve_run ix options"
    and reach: "state_after ix rn k (initial_state ix options) = Some st"
    and fill: "fill_queue (run_concurrency rn) (run_endBlock rn) (fetchQueue st) (currentBlock st)
                 = (n # rest, cur)"
    and fetch: "fetchBlockData (idx_api ix) n = Some (Inr fr)"
    and cont: "iteration ix rn st = Continue st'"
    and cb: "run_onProgress rn = Some callback"
  shows "(fr = None \<longrightarrow> trace st' = trace st) \<and>
         (\<forall>fetched. fr = Some fetched \<longrightarrow>
            callbacks (trace st') =
              callbacks (trace st) @
              [\<lparr>cb_lastIndexedBlock = n,
                cb_blocksIndexed = st_blocksIndexed st + 1,
                cb_extrinsicsIndexed =
                  st_extrinsicsIndexed st + int (length (block_extrinsics (signedBlock fetched))),
                cb_eventsIndexed = st_eventsIndexed st + int (length (allEvents fetched)),
                cb_activeFetches = length rest\<rparr>]) \<and>
         (\<forall>p \<in> set (callbacks (trace st)). cb_lastIndexedBlock p < n)"
proof (intro conjI allI impI ballI)
  fix p assume "p \<in> set (callbacks (trace st))"
  from earlier_callbacks_lower[OF reach fill this] show "cb_lastIndexedBlock p < n" .
next
  assume "fr = None"
  with fill fetch cont show "trace st' = trace st"
    by (auto simp: iteration_def)
next
  fix fetched
  assume fr: "fr = Some fetched"
  with fetch have bn: "blockNum fetched = n" using fetchBlockData_blockNum by simp
  let ?st = "st\<lparr>currentBlock := cur, fetchQueue := rest\<rparr>"
  from fill fetch cont fr obtain u where pb: "process_block ix rn ?st fetched = (Inr u, st')"
    by (auto simp: iteration_def split: prod.splits sum.splits)
  then obtain u' where tb: "try_block ix rn ?st fetched = (Inr u', st')"
    by (auto simp: process_block_def catch_block_def Let_def split: prod.splits sum.splits option.splits)
  from tb cb bn show "callbacks (trace st') =
              callbacks (trace st) @
              [\<lparr>cb_lastIndexedBlock = n,
                cb_blocksIndexed = st_blocksIndexed st + 1,
                cb_extrinsicsIndexed =
                  st_extrinsicsIndexed st + int (length (block_extrinsics (signedBlock fetched))),
                cb_eventsIndexed = st_eventsIndexed st + int (length (allEvents fetched)),
                cb_activeFetches = length rest\<rparr>]"
    unfolding try_block_def
    by (auto simp: emit_def Let_def callbacks_append callbacks_insert_calls normalize_def
        length_extrinsic_documents dest: length_event_documents
        split: sum.splits option.splits prod.splits)
qed

text \<open>
  Two instances of C9: the first pass over the heights 0 to 2 with two fetches in
  flight, once with a block at height 0 and once with height 0 pruned.
\<close>

theorem callback_once_per_processed_height_witness:
  "(\<exists>st'. iteration (sample_indexer (\<lambda>h k. Inr full_block) (sample_db []))
            (resolve_run (sample_indexer (\<lambda>h k. Inr full_block) (sample_db [])) (sample_options 0 2 2))
            (initial_state (sample_indexer (\<lambda>h k. Inr full_block) (sample_db [])) (sample_options 0 2 2))
            = Continue st' \<and>
          callbacks (trace st') =
            [\<lparr>cb_lastIndexedBlock = 0, cb_blocksIndexed = 1, cb_extrinsicsIndexed = 1,
              cb_eventsIndexed = 1, cb_activeFetches = 1\<rparr>]) \<and>
   (\<exists>st'. iteration (sample_indexer (\<lambda>h k. Inl pruned_error) (sample_db []))
            (resolve_run (sample_indexer (\<lambda>h k. Inl pruned_error) (sample_db [])) (sample_options 0 2 2))
            (initial_state (sample_indexer (\<lambda>h k. Inl pruned_error) (sample_db [])) (sample_options 0 2 2))
            = Continue st' \<and>
          trace st' = [])"
proof -
  let ?ix = "sample_indexer (\<lambda>h k. Inr full_block) (sample_db [])"
  let ?op = "sample_options 0 2 2"
  let ?rn = "resolve_run ?ix ?op"
  let ?st = "initial_state ?ix ?op"
  let ?f = "\<lparr>blockNum = 0, blockHash = ''0xb'',
             signedBlock = \<lparr>header_parentHash = ''0xp'', header_stateRoot = ''0xs'',
                header_extrinsicsRoot = ''0xx'', block_extrinsics = [sample_transfer]\<rparr>,
             timestampMs = 1000,
             allEvents = [system_event ''ExtrinsicSuccess'' 0]\<rparr>"
  have a0: "state_after ?ix ?rn 0 ?st = Some ?st" by simp
  have a1: "fill_queue (run_concurrency ?rn) (run_endBlock ?rn) (fetchQueue ?st) (currentBlock ?st)
              = (0 # [1], 2)" by (simp add: sample_defs model_defs)
  have a2: "fetchBlockData (idx_api ?ix) 0 = Some (Inr (Some ?f))"
    by (simp add: sample_defs model_defs retry_loop.simps)
  obtain st' where a3: "iteration ?ix ?rn ?st = Continue st'"
    by (simp add: sample_defs model_defs retry_loop.simps Let_def)
  have a4: "run_onProgress ?rn = Some (\<lambda>p. None)" by (simp add: sample_defs model_defs)
  have a5: "trace ?st = []" "st_blocksIndexed ?st = 0" "st_extrinsicsIndexed ?st = 0"
    "st_eventsIndexed ?st = 0" by (simp_all add: sample_defs model_defs)
  from callback_once_per_processed_height[OF refl a0 a1 a2 a3 a4] a5
  have "callbacks (trace st') =
            [\<lparr>cb_lastIndexedBlock = 0, cb_blocksIndexed = 1, cb_extrinsicsIndexed = 1,
              cb_eventsIndexed = 1, cb_activeFetches = 1\<rparr>]" by simp
  with a3 have A: "\<exists>st'. iteration ?ix ?rn ?st = Continue st' \<and>
          callbacks (trace st') =
            [\<lparr>cb_lastIndexedBlock = 0, cb_blocksIndexed = 1, cb_extrinsicsIndexed = 1,
              cb_eventsIndexed = 1, cb_activeFetches = 1\<rparr>]" by blast
  let ?iy = "sample_indexer (\<lambda>h k. Inl pruned_error) (sample_db [])"
  let ?rm = "resolve_run ?iy ?op"
  let ?su = "initial_state ?iy ?op"
  have b0: "state_after ?iy ?rm 0 ?su = Some ?su" by simp
  have b1: "fill_queue (run_concurrency ?rm) (run_endBlock ?rm) (fetchQueue ?su) (currentBlock ?su)
              = (0 # [1], 2)" by (simp add: sample_defs model_defs)
  have b2: "fetchBlockData (idx_api ?iy) 0 = Some (Inr None)"
    by (simp add: sample_defs model_defs retry_loop.simps)
  obtain su' where b3: "iteration ?iy ?rm ?su = Continue su'"
    by (simp add: sample_defs model_defs retry_loop.simps Let_def)
  have b4: "run_onProgress ?rm = Some (\<lambda>p. None)" by (simp add: sample_defs model_defs)
  have b5: "trace ?su = []" by (simp add: sample_defs model_defs)
  from callback_once_per_processed_height[OF refl b0 b1 b2 b3 b4] b5
  have "trace su' = []" by simp
  with b3 have B: "\<exists>st'. iteration ?iy ?rm ?su = Continue st' \<and> trace st' = []" by blast
  from A B show ?thesis by blast
qed

section \<open>The arguments of a transaction\<close>

lemma decode_each_eq:
  "decode_each names vals i args =
     fold (\<lambda>(n, v). assign n v) (decoded_before_failure names (drop i vals)) args"
proof (induction names arbitrary: i args)
  case Nil
  then show ?case by simp
next
  case (Cons n names)
  show ?case
  proof (cases "i < length vals")
    case True
    then have d: "drop i vals = vals ! i # drop (Suc i) vals"
      by (simp add: Cons_nth_drop_Suc)
    show ?thesis
      using True Cons.IH[of "Suc i"] by (cases "vals ! i") (simp_all add: d)
  next
    case False
    then show ?thesis by simp
  qed
qed

lemma nth_extrinsic_documents:
  "i < length (block_extrinsics (signedBlock fetched)) \<Longrightarrow>
   extrinsic_documents ix fetched ! i =
     extrinsic_document ix fetched i (block_extrinsics (signedBlock fetched) ! i)"
  by (simp add: extrinsic_documents_def nth_enumerate_eq)

lemma try_block_inserts_extrinsics:
  assumes "event_documents ix fetched 0 (allEvents fetched) = Inr eventDocs"
    and "block_extrinsics (signedBlock fetched) \<noteq> []"
  shows "(blockNum fetched, ExtrinsicsInsertMany (extrinsic_documents ix fetched))
           \<in> set (trace (snd (try_block ix rn st fetched)))"
proof -
  have n: "normalize ix fetched =
             Inr (block_document ix fetched, extrinsic_documents ix fetched, eventDocs)"
    using assms(1) by (simp add: normalize_def)
  have "length (extrinsic_documents ix fetched) \<noteq> 0"
    using assms(2) by (simp add: length_extrinsic_documents)
  then have ne: "extrinsic_documents ix fetched \<noteq> []" by simp
  show ?thesis
    unfolding try_block_def
    by (simp add: n ne emit_def insert_calls_def Let_def split: option.splits)
qed

text \<open>
  C8, as the specification states it: when the declared arguments of a transaction fail
  to decode, its argument mapping is empty. The source fills the mapping argument by
  argument and keeps what it has stored when a later argument fails: with the arguments
  \<open>dest\<close> and \<open>value\<close>, of which the second does not decode, the mapping holds
  \<open>dest\<close>.
\<close>

theorem partial_args_kept:
  "ex_meta_args half_decoded = Some [''dest'', ''value''] \<and>
   ex_method_args half_decoded = [Some ''Alice'', None] \<and>
   map_sum id (\<lambda>(b, xs, es). map ext_args xs)
     (normalize (sample_indexer (\<lambda>h k. Inr full_block) (sample_db []))
        (fetched_at 0 (sample_reply [half_decoded] [])))
     = Inr [[(''dest'', ''Alice'')]]"
  by (simp add: sample_defs model_defs)

text \<open>
  C8, amended: when the declared arguments of a transaction fail to decode, the block is
  still normalised and the record of the transaction is still part of the bulk insert of
  its height; its argument mapping holds the arguments decoded before the first one that
  fails (none when the declared arguments cannot be read or the first one fails).
\<close>

theorem args_decode_failure_contained:
  assumes "event_documents ix fetched 0 (allEvents fetched) = Inr eventDocs"
    and "i < length (block_extrinsics (signedBlock fetched))"
  shows "normalize ix fetched =
           Inr (block_document ix fetched, extrinsic_documents ix fetched, eventDocs) \<and>
         (blockNum fetched, ExtrinsicsInsertMany (extrinsic_documents ix fetched))
           \<in> set (trace (snd (try_block ix rn st fetched))) \<and>
         length (extrinsic_documents ix fetched) = length (block_extrinsics (signedBlock fetched)) \<and>
         ext_extrinsicIndex (extrinsic_documents ix fetched ! i) = i \<and>
         ext_args (extrinsic_documents ix fetched ! i) =
           (case ex_meta_args (block_extrinsics (signedBlock fetched) ! i) of
              None \<Rightarrow> []
            | Some names \<Rightarrow>
                fold (\<lambda>(n, v). assign n v)
                  (decoded_before_failure names
                     (ex_method_args (block_extrinsics (signedBlock fetched) ! i))) [])"
proof -
  from assms(2) have ne: "block_extrinsics (signedBlock fetched) \<noteq> []" by auto
  have "ext_args (extrinsic_documents ix fetched ! i) =
           (case ex_meta_args (block_extrinsics (signedBlock fetched) ! i) of
              None \<Rightarrow> []
            | Some names \<Rightarrow>
                fold (\<lambda>(n, v). assign n v)
                  (decoded_before_failure names
                     (ex_method_args (block_extrinsics (signedBlock fetched) ! i))) [])"
    using assms(2)
    by (simp add: nth_extrinsic_documents extrinsic_document_def decode_args_def decode_each_eq
        Let_def split: prod.splits option.splits)
  moreover have "ext_extrinsicIndex (extrinsic_documents ix fetched ! i) = i"
    using assms(2)
    by (simp add: nth_extrinsic_documents extrinsic_document_def Let_def split: prod.splits)
  moreover have "normalize ix fetched =
           Inr (block_document ix fetched, extrinsic_documents ix fetched, eventDocs)"
    using assms(1) by (simp add: normalize_def)
  ultimately show ?thesis
    using try_block_inserts_extrinsics[OF assms(1) ne, of rn st]
    by (simp add: extrinsic_documents_def)
qed

text \<open>
  Two instances of C8: a transaction whose second argument does not decode, and one whose
  declared arguments cannot be read.
\<close>

theorem args_decode_failure_contained_witness:
  "event_documents (sample_indexer (\<lambda>h k. Inr full_block) (sample_db []))
      (fetched_at 0 (sample_reply [half_decoded] [])) 0
      (allEvents (fetched_at 0 (sample_reply [half_decoded] []))) = Inr [] \<and>
   ext_args (extrinsic_documents (sample_indexer (\<lambda>h k. Inr full_block) (sample_db []))
      (fetched_at 0 (sample_reply [half_decoded] [])) ! 0) = [(''dest'', ''Alice'')] \<and>
   ext_args (extrinsic_documents (sample_indexer (\<lambda>h k. Inr full_block) (sample_db []))
      (fetched_at 0 (sample_reply [sample_transfer\<lparr>ex_meta_args := None\<rparr>] [])) ! 0) = []"
proof -
  let ?ix = "sample_indexer (\<lambda>h k. Inr full_block) (sample_db [])"
  let ?f = "fetched_at 0 (sample_reply [half_decoded] [])"
  let ?g = "fetched_at 0 (sample_reply [sample_transfer\<lparr>ex_meta_args := None\<rparr>] [])"
  have a1: "event_documents ?ix ?f 0 (allEvents ?f) = Inr []" by (simp add: sample_defs)
  have a2: "0 < length (block_extrinsics (signedBlock ?f))" by (simp add: sample_defs)
  have b1: "event_documents ?ix ?g 0 (allEvents ?g) = Inr []" by (simp add: sample_defs)
  have b2: "0 < length (block_extrinsics (signedBlock ?g))" by (simp add: sample_defs)
  from args_decode_failure_contained[OF a1 a2]
  have A: "ext_args (extrinsic_documents ?ix ?f ! 0) = [(''dest'', ''Alice'')]"
    by (simp add: sample_defs)
  from args_decode_failure_contained[OF b1 b2]
  have B: "ext_args (extrinsic_documents ?ix ?g ! 0) = []"
    by (simp add: sample_defs)
  from a1 A B show ?thesis by blast
qed

section \<open>The success flag of a transaction\<close>

lemma check_success_flag:
  "fst (check_success a i evs (s, e)) =
     (let markers = filter (\<lambda>r. er_phase r = ApplyExtrinsic i \<and>
                                (ExtrinsicSuccess_is a r \<or> ExtrinsicFailed_is a r)) evs
      in if markers = [] then s else ExtrinsicSuccess_is a (last markers))"
  by (induction evs arbitrary: s e) (auto simp: Let_def)

lemma check_success_no_match:
  "filter (\<lambda>r. er_phase r = ApplyExtrinsic i) evs = [] \<Longrightarrow>
   check_success a i evs (s, e) = (s, e)"
  by (induction evs arbitrary: s e) (auto split: if_splits)

text \<open>
  C10, as stated: the classification of the last apply-phase event with the index of the
  transaction determines the success flag. An event with that index that is neither the
  success marker nor the failed marker leaves the flag as it is: two blocks whose last
  event for transaction 0 is the same unclassified event record the one success, the
  other failure.
\<close>

theorem last_matching_event_not_decisive:
  "last (filter (\<lambda>r. er_phase r = ApplyExtrinsic 0)
           [system_event ''ExtrinsicSuccess'' 0, system_event ''Remarked'' 0])
     = system_event ''Remarked'' 0 \<and>
   last (filter (\<lambda>r. er_phase r = ApplyExtrinsic 0)
           [system_event ''ExtrinsicFailed'' 0, system_event ''Remarked'' 0])
     = system_event ''Remarked'' 0 \<and>
   ext_success (extrinsic_document (sample_indexer (\<lambda>h k. Inr full_block) (sample_db []))
      (fetched_at 0 (sample_reply [sample_transfer]
         [system_event ''ExtrinsicSuccess'' 0, system_event ''Remarked'' 0])) 0 sample_transfer)
     = True \<and>
   ext_success (extrinsic_document (sample_indexer (\<lambda>h k. Inr full_block) (sample_db []))
      (fetched_at 0 (sample_reply [sample_transfer]
         [system_event ''ExtrinsicFailed'' 0, system_event ''Remarked'' 0])) 0 sample_transfer)
     = False"
  by (simp add: sample_defs model_defs)

text \<open>
  C10, amended: a transaction with no apply-phase event of its index is recorded with
  \<open>success = false\<close> and no error description. Otherwise the flag is decided by the last
  event of its index that is a success marker or a failed marker: it is true exactly when
  there is such an event and the last one is a success marker.
\<close>

theorem success_flag:
  "(filter (\<lambda>r. er_phase r = ApplyExtrinsic i) (allEvents fetched) = [] \<longrightarrow>
      ext_success (extrinsic_document ix fetched i x) = False \<and>
      ext_error (extrinsic_document ix fetched i x) = None) \<and>
   ext_success (extrinsic_document ix fetched i x) =
     (let markers = filter (\<lambda>r. er_phase r = ApplyExtrinsic i \<and>
                                 (ExtrinsicSuccess_is (idx_api ix) r \<or>
                                  ExtrinsicFailed_is (idx_api ix) r)) (allEvents fetched)
      in markers \<noteq> [] \<and> ExtrinsicSuccess_is (idx_api ix) (last markers))"
proof -
  obtain s e where c: "check_success (idx_api ix) i (allEvents fetched) (False, None) = (s, e)"
    by (cases "check_success (idx_api ix) i (allEvents fetched) (False, None)")
  from check_success_flag[of "idx_api ix" i "allEvents fetched" False None] c
  have "s = (let markers = filter (\<lambda>r. er_phase r = ApplyExtrinsic i \<and>
                                 (ExtrinsicSuccess_is (idx_api ix) r \<or>
                                  ExtrinsicFailed_is (idx_api ix) r)) (allEvents fetched)
      in markers \<noteq> [] \<and> ExtrinsicSuccess_is (idx_api ix) (last markers))"
    by (auto simp: Let_def)
  moreover have "filter (\<lambda>r. er_phase r = ApplyExtrinsic i) (allEvents fetched) = [] \<longrightarrow>
      s = False \<and> e = None"
    using check_success_no_match[of i "allEvents fetched" "idx_api ix" False None] c by auto
  ultimately show ?thesis
    using c by (simp add: extrinsic_document_def Let_def)
qed

text \<open>
  Two instances of C10, in a block whose events for transaction 0 are a failed marker
  followed by a success marker: transaction 1 has no event and is recorded as failed
  with no error, transaction 0 is recorded as successful.
\<close>

theorem success_flag_witness:
  "filter (\<lambda>r. er_phase r = ApplyExtrinsic 1)
      (allEvents (fetched_at 0 (sample_reply [sample_transfer, sample_transfer]
         [system_event ''ExtrinsicFailed'' 0, system_event ''ExtrinsicSuccess'' 0]))) = [] \<and>
   ext_success (extrinsic_document (sample_indexer (\<lambda>h k. Inr full_block) (sample_db []))
      (fetched_at 0 (sample_reply [sample_transfer, sample_transfer]
         [system_event ''ExtrinsicFailed'' 0, system_event ''ExtrinsicSuccess'' 0])) 1 sample_transfer)
     = False \<and>
   ext_error (extrinsic_document (sample_indexer (\<lambda>h k. Inr full_block) (sample_db []))
      (fetched_at 0 (sample_reply [sample_transfer, sample_transfer]
         [system_event ''ExtrinsicFailed'' 0, system_event ''ExtrinsicSuccess'' 0])) 1 sample_transfer)
     = None \<and>
   ext_success (extrinsic_document (sample_indexer (\<lambda>h k. Inr full_block) (sample_db []))
      (fetched_at 0 (sample_reply [sample_transfer, sample_transfer]
         [system_event ''ExtrinsicFailed'' 0, system_event ''ExtrinsicSuccess'' 0])) 0 sample_transfer)
     = True"
proof -
  let ?ix = "sample_indexer (\<lambda>h k. Inr full_block) (sample_db [])"
  let ?f = "fetched_at 0 (sample_reply [sample_transfer, sample_transfer]
         [system_event ''ExtrinsicFailed'' 0, system_event ''ExtrinsicSuccess'' 0])"
  have a: "filter (\<lambda>r. er_phase r = ApplyExtrinsic 1) (allEvents ?f) = []"
    by (simp add: sample_defs)
  from success_flag[of 1 ?f ?ix sample_transfer] a
  have A: "ext_success (extrinsic_document ?ix ?f 1 sample_transfer) = False"
    "ext_error (extrinsic_document ?ix ?f 1 sample_transfer) = None" by blast+
  have B: "ext_success (extrinsic_document ?ix ?f 0 sample_transfer) = True"
    by (simp add: success_flag[of 0 ?f ?ix sample_transfer, THEN conjunct2]) (simp add: sample_defs)
  from a A B show ?thesis by blast
qed

end
